theory Spec2Isabelle
  imports Main
begin

section \<open>Configuration keys, values and the store\<close>

text \<open>
  The handlers of \<^verbatim>\<open>internal/api/resolver_mutation_configure.go\<close> address the
  configuration store through the key constants of package \<^verbatim>\<open>config\<close>
  (\<^verbatim>\<open>config.Database\<close>, \<^verbatim>\<open>config.Stash\<close>, ...). The constants' string values are
  declared outside this file; each constant is represented by a constructor of its
  own, \<^verbatim>\<open>config.X\<close> written \<open>config_X\<close>.
\<close>

datatype (plugins only: code) key =
    config_Stash | config_Database | config_BackupDirectoryPath | config_Generated
  | config_ScrapersPath | config_PluginsPath | config_Metadata | config_Cache
  | config_BlobsPath | config_BlobsStorage | config_FFMpegPath | config_FFProbePath
  | config_VideoFileNamingAlgorithm | config_CalculateMD5 | config_ParallelTasks
  | config_PreviewAudio | config_PreviewSegments | config_PreviewSegmentDuration
  | config_PreviewExcludeStart | config_PreviewExcludeEnd | config_PreviewPreset
  | config_TranscodeHardwareAcceleration | config_MaxTranscodeSize
  | config_MaxStreamingTranscodeSize | config_WriteImageThumbnails
  | config_CreateImageClipsFromVideos | config_GalleryCoverRegex | config_Username
  | config_Password | config_MaxSessionAge | config_LogFile | config_LogOut
  | config_LogAccess | config_LogLevel | config_Exclude | config_ImageExclude
  | config_VideoExtensions | config_ImageExtensions | config_GalleryExtensions
  | config_CreateGalleriesFromFolders | config_CustomPerformerImageLocation
  | config_StashBoxes | config_PythonPath | config_TranscodeInputArgs
  | config_TranscodeOutputArgs | config_LiveTranscodeInputArgs
  | config_LiveTranscodeOutputArgs | config_DrawFunscriptHeatmapRange
  | config_ScraperPackageSources | config_PluginPackageSources
  | config_ScraperUserAgent | config_ScraperCDPPath | config_ScraperExcludeTagPatterns
  | config_ScraperCertCheck | config_ApiKey

text \<open>Go's \<^verbatim>\<open>float64\<close> is only passed through from the input to the store.\<close>

typedecl float64

text \<open>The package-source input objects are only passed through as well.\<close>

typedecl PackageSourceInput

record StashConfigInput =
  Path :: string
  ExcludeVideo :: bool
  ExcludeImage :: bool

record StashBoxInput =
  Endpoint :: string
  APIKey :: string
  BoxName :: string

datatype BlobsStorageType = BlobStorageTypeDatabase | BlobStorageTypeFilesystem

datatype HashAlgorithm = HashAlgorithmMd5 | HashAlgorithmOshash

text \<open>The dynamically typed values (\<^verbatim>\<open>interface{}\<close>) the store and the change set hold.\<close>

datatype cfgval =
    VString string
  | VBool bool
  | VInt int
  | VFloat float64
  | VStrings "string list"
  | VStashes "StashConfigInput list"
  | VStashBoxes "StashBoxInput list"
  | VBlobsStorageType BlobsStorageType
  | VHashAlgorithm HashAlgorithm
  | VPackageSources "PackageSourceInput list"

text \<open>
  Errors as values. \<open>External\<close> carries the message of an error that a collaborator
  returned and the handler passes on unchanged; the other constructors are the errors
  the handlers build themselves. \<open>ChangeSetPayload\<close> is the error whose message is the
  JSON rendering of \<^verbatim>\<open>localConfig\<close>.
\<close>

datatype error =
    OverriddenConfig key
  | External string
  | InvalidDatabasePath
  | BlobsPathNotSet
  | InvalidFFMpegPath string
  | InvalidFFProbePath string
  | CalculateMD5Required
  | GalleryCoverRegexInvalid string string
  | VideoExclusionInvalid string string
  | ImageExclusionInvalid string string
  | TagExclusionInvalid string string
  | ChangeSetPayload "key \<rightharpoonup> cfgval"

text \<open>The refresh hooks of the manager.\<close>

datatype hook =
    RefreshConfig | RefreshScraperCache | RefreshPluginCache | RefreshFFMpeg
  | RefreshStreamManager | SetBlobStoreOptions | RefreshScraperSourceManager
  | RefreshPluginSourceManager

text \<open>The calls with an effect outside the handler, in the order they are made.\<close>

datatype event =
    CfgSet key cfgval
  | CfgHasOverride key
  | CfgWrite bool
  | FsDirExists string
  | FsEnsureDir string
  | Refresh hook
  | LoggerSetLogLevel string
  | InitCustomPerformerImages string
  | LogInfo string

text \<open>
  What a Go call of a handler does: it returns its pair of result and error, or it
  panics (a nil pointer dereference).
\<close>

datatype 'r outcome = Return 'r "error option" | Panic

text \<open>
  Modelled from the spec: the ConfigStore (package \<^verbatim>\<open>config\<close>, not part of this file)
  is "the sole mutable source of truth for settings: typed getters, typed setters that
  also update an in-memory representation, a set of override keys that are externally
  locked". The store is a map from keys to values, the set of overridden keys and the
  flag that tolerates a read-only configuration file.
\<close>

record config =
  "values" :: "key \<rightharpoonup> cfgval"
  overrides :: "key set"
  AllowReadOnlyConfigFile :: bool

text \<open>
  The state of one handler call: the store \<^verbatim>\<open>c\<close>, the calls made so far, and the
  handler's local variables (\<^verbatim>\<open>localConfig\<close> and the refresh flags).
\<close>

record st = config +
  trace :: "event list"
  localConfig :: "key \<rightharpoonup> cfgval"
  refreshScraperCache :: bool
  refreshScraperSource :: bool
  refreshPluginCache :: bool
  refreshPluginSource :: bool
  refreshStreamManager :: bool
  refreshBlobStorage :: bool
  refreshFfmpeg :: bool

text \<open>
  The collaborators the handlers call as primitives. Each validation returns
  \<open>None\<close> for a nil error and \<open>Some msg\<close> for an error.
\<close>

record env =
  dir_check :: "string \<Rightarrow> string option"
  EnsureDir :: "string \<Rightarrow> string option"
  regexp_Compile :: "string \<Rightarrow> string option"
  ValidateFFMpeg :: "string \<Rightarrow> string option"
  ValidateFFProbe :: "string \<Rightarrow> string option"
  ValidateVideoFileNamingAlgorithm :: "HashAlgorithm \<Rightarrow> string option"
  ValidateStashBoxes :: "StashBoxInput list \<Rightarrow> string option"
  Write :: "string option"
  HashPassword :: "string \<Rightarrow> string"
  manager_GenerateAPIKey :: "string \<Rightarrow> string \<times> string option"

text \<open>
  Modelled from the spec: \<^verbatim>\<open>fsutil.DirExists\<close> is not part of this file. The spec's
  rule "Directory existence: fails with PathNotFound if path does not exist" has the
  contract \<^verbatim>\<open>validate(candidate) -> ok | (error kind, message)\<close>: the path exists and
  the error is nil, or it does not and the error says so.
\<close>

definition DirExists :: "env \<Rightarrow> string \<Rightarrow> bool \<times> error option" where
  "DirExists e p = (case dir_check e p of None \<Rightarrow> (True, None) | Some m \<Rightarrow> (False, Some (External m)))"

subsection \<open>Typed getters and setters\<close>

definition getString :: "'a config_scheme \<Rightarrow> key \<Rightarrow> string" where
  "getString c k = (case values c k of Some (VString x) \<Rightarrow> x | _ \<Rightarrow> [])"

definition getBool :: "'a config_scheme \<Rightarrow> key \<Rightarrow> bool" where
  "getBool c k = (case values c k of Some (VBool b) \<Rightarrow> b | _ \<Rightarrow> False)"

definition GetStashPaths :: "'a config_scheme \<Rightarrow> StashConfigInput list" where
  "GetStashPaths c = (case values c config_Stash of Some (VStashes ps) \<Rightarrow> ps | _ \<Rightarrow> [])"

definition GetDatabasePath :: "'a config_scheme \<Rightarrow> string" where
  "GetDatabasePath c = getString c config_Database"

definition GetBackupDirectoryPath :: "'a config_scheme \<Rightarrow> string" where
  "GetBackupDirectoryPath c = getString c config_BackupDirectoryPath"

definition GetGeneratedPath :: "'a config_scheme \<Rightarrow> string" where
  "GetGeneratedPath c = getString c config_Generated"

definition GetScrapersPath :: "'a config_scheme \<Rightarrow> string" where
  "GetScrapersPath c = getString c config_ScrapersPath"

definition GetPluginsPath :: "'a config_scheme \<Rightarrow> string" where
  "GetPluginsPath c = getString c config_PluginsPath"

definition GetMetadataPath :: "'a config_scheme \<Rightarrow> string" where
  "GetMetadataPath c = getString c config_Metadata"

definition GetCachePath :: "'a config_scheme \<Rightarrow> string" where
  "GetCachePath c = getString c config_Cache"

definition GetBlobsPath :: "'a config_scheme \<Rightarrow> string" where
  "GetBlobsPath c = getString c config_BlobsPath"

definition GetBlobsStorage :: "'a config_scheme \<Rightarrow> BlobsStorageType" where
  "GetBlobsStorage c =
     (case values c config_BlobsStorage of Some (VBlobsStorageType t) \<Rightarrow> t
      | _ \<Rightarrow> BlobStorageTypeDatabase)"

definition GetFFMpegPath :: "'a config_scheme \<Rightarrow> string" where
  "GetFFMpegPath c = getString c config_FFMpegPath"

definition GetFFProbePath :: "'a config_scheme \<Rightarrow> string" where
  "GetFFProbePath c = getString c config_FFProbePath"

definition GetVideoFileNamingAlgorithm :: "'a config_scheme \<Rightarrow> HashAlgorithm" where
  "GetVideoFileNamingAlgorithm c =
     (case values c config_VideoFileNamingAlgorithm of Some (VHashAlgorithm a) \<Rightarrow> a
      | _ \<Rightarrow> HashAlgorithmOshash)"

definition IsCalculateMD5 :: "'a config_scheme \<Rightarrow> bool" where
  "IsCalculateMD5 c = getBool c config_CalculateMD5"

definition GetUsername :: "'a config_scheme \<Rightarrow> string" where
  "GetUsername c = getString c config_Username"

definition GetPasswordHash :: "'a config_scheme \<Rightarrow> string" where
  "GetPasswordHash c = getString c config_Password"

definition GetLogLevel :: "'a config_scheme \<Rightarrow> string" where
  "GetLogLevel c = getString c config_LogLevel"

definition HasOverride :: "'a config_scheme \<Rightarrow> key \<Rightarrow> bool" where
  "HasOverride c k = (k \<in> overrides c)"

definition emit :: "event \<Rightarrow> st \<Rightarrow> st" where
  "emit e s = s\<lparr>trace := trace s @ [e]\<rparr>"

text \<open>Every setter of the store updates the in-memory document at its key.\<close>

definition cfg_Set :: "key \<Rightarrow> cfgval \<Rightarrow> st \<Rightarrow> st" where
  "cfg_Set k v s = s\<lparr>values := (values s)(k \<mapsto> v), trace := trace s @ [CfgSet k v]\<rparr>"

definition SetString :: "key \<Rightarrow> string \<Rightarrow> st \<Rightarrow> st" where
  "SetString k x = cfg_Set k (VString x)"

definition SetBool :: "key \<Rightarrow> bool \<Rightarrow> st \<Rightarrow> st" where
  "SetBool k x = cfg_Set k (VBool x)"

definition SetInt :: "key \<Rightarrow> int \<Rightarrow> st \<Rightarrow> st" where
  "SetInt k x = cfg_Set k (VInt x)"

definition SetFloat :: "key \<Rightarrow> float64 \<Rightarrow> st \<Rightarrow> st" where
  "SetFloat k x = cfg_Set k (VFloat x)"

definition SetInterface :: "key \<Rightarrow> cfgval \<Rightarrow> st \<Rightarrow> st" where
  "SetInterface k v = cfg_Set k v"

text \<open>
  Modelled from the spec: \<^verbatim>\<open>SetPassword\<close> is not part of this file; "password
  comparison is against the stored hash, not plaintext", so the setter stores the hash
  of the password it is given.
\<close>

definition SetPassword :: "env \<Rightarrow> string \<Rightarrow> st \<Rightarrow> st" where
  "SetPassword e pw = cfg_Set config_Password (VString (HashPassword e pw))"

text \<open>\<^verbatim>\<open>localConfig[key] = value\<close>\<close>

definition record_local :: "key \<Rightarrow> cfgval \<Rightarrow> st \<Rightarrow> st" where
  "record_local k v s = s\<lparr>localConfig := (localConfig s)(k \<mapsto> v)\<rparr>"

definition setConfigString :: "key \<Rightarrow> string option \<Rightarrow> st \<Rightarrow> st" where
  "setConfigString k v s =
     (case v of None \<Rightarrow> s | Some x \<Rightarrow> SetString k x (record_local k (VString x) s))"

definition setConfigBool :: "key \<Rightarrow> bool option \<Rightarrow> st \<Rightarrow> st" where
  "setConfigBool k v s =
     (case v of None \<Rightarrow> s | Some x \<Rightarrow> SetBool k x (record_local k (VBool x) s))"

definition setConfigInt :: "key \<Rightarrow> int option \<Rightarrow> st \<Rightarrow> st" where
  "setConfigInt k v s =
     (case v of None \<Rightarrow> s | Some x \<Rightarrow> SetInt k x (record_local k (VInt x) s))"

definition setConfigFloat :: "key \<Rightarrow> float64 option \<Rightarrow> st \<Rightarrow> st" where
  "setConfigFloat k v s =
     (case v of None \<Rightarrow> s | Some x \<Rightarrow> SetFloat k x (record_local k (VFloat x) s))"

text \<open>\<^verbatim>\<open>c.SetInterface(key, v); localConfig[key] = v\<close> under \<^verbatim>\<open>if v != nil\<close>.\<close>

definition setInterfaceIfPresent :: "key \<Rightarrow> cfgval option \<Rightarrow> st \<Rightarrow> st" where
  "setInterfaceIfPresent k v s =
     (case v of None \<Rightarrow> s | Some x \<Rightarrow> record_local k x (SetInterface k x s))"

section \<open>ConfigureGeneral\<close>

text \<open>
  The partial update record: every field is a pointer or a slice, \<open>None\<close> for nil.
  \<^verbatim>\<open>PreviewPreset\<close>, \<^verbatim>\<open>MaxTranscodeSize\<close> and \<^verbatim>\<open>MaxStreamingTranscodeSize\<close> are
  string-backed enums, held here as the string their \<^verbatim>\<open>String()\<close> method returns.
\<close>

record ConfigGeneralInput =
  Stashes :: "StashConfigInput list option"
  DatabasePath :: "string option"
  BackupDirectoryPath :: "string option"
  GeneratedPath :: "string option"
  ScrapersPath :: "string option"
  PluginsPath :: "string option"
  MetadataPath :: "string option"
  CachePath :: "string option"
  BlobsPath :: "string option"
  BlobsStorage :: "BlobsStorageType option"
  FfmpegPath :: "string option"
  FfprobePath :: "string option"
  VideoFileNamingAlgorithm :: "HashAlgorithm option"
  CalculateMd5 :: "bool option"
  ParallelTasks :: "int option"
  PreviewAudio :: "bool option"
  PreviewSegments :: "int option"
  PreviewSegmentDuration :: "float64 option"
  PreviewExcludeStart :: "string option"
  PreviewExcludeEnd :: "string option"
  PreviewPreset :: "string option"
  TranscodeHardwareAcceleration :: "bool option"
  MaxTranscodeSize :: "string option"
  MaxStreamingTranscodeSize :: "string option"
  WriteImageThumbnails :: "bool option"
  CreateImageClipsFromVideos :: "bool option"
  GalleryCoverRegex :: "string option"
  Username :: "string option"
  Password :: "string option"
  MaxSessionAge :: "int option"
  LogFile :: "string option"
  LogOut :: "bool option"
  LogAccess :: "bool option"
  LogLevel :: "string option"
  Excludes :: "string list option"
  ImageExcludes :: "string list option"
  VideoExtensions :: "string list option"
  ImageExtensions :: "string list option"
  GalleryExtensions :: "string list option"
  CreateGalleriesFromFolders :: "bool option"
  CustomPerformerImageLocation :: "string option"
  StashBoxes :: "StashBoxInput list option"
  PythonPath :: "string option"
  TranscodeInputArgs :: "string list option"
  TranscodeOutputArgs :: "string list option"
  LiveTranscodeInputArgs :: "string list option"
  LiveTranscodeOutputArgs :: "string list option"
  DrawFunscriptHeatmapRange :: "bool option"
  ScraperPackageSources :: "PackageSourceInput list option"
  PluginPackageSources :: "PackageSourceInput list option"

text \<open>
  Modelled from the spec: \<^verbatim>\<open>makeConfigGeneralResult\<close> is not part of this file; it
  builds "the materialized, group-scoped view of the ConfigurationDocument" from the
  store as it is when the handler returns.
\<close>

datatype ConfigGeneralResult = ConfigGeneralResult "key \<rightharpoonup> cfgval"

definition makeConfigGeneralResult :: "'a config_scheme \<Rightarrow> ConfigGeneralResult" where
  "makeConfigGeneralResult c = ConfigGeneralResult (values c)"

text \<open>
  The handler is a sequence of blocks, one per input field. A block either falls
  through to the next one with the state it leaves, or leaves the handler (a
  \<^verbatim>\<open>return\<close> or a panic).
\<close>

type_synonym 'r step = "st \<Rightarrow> st \<times> 'r outcome option"

fun run_steps :: "'r step list \<Rightarrow> 'r step" where
  "run_steps [] s = (s, None)"
| "run_steps (f # fs) s =
     (case f s of (s', None) \<Rightarrow> run_steps fs s' | (s', Some x) \<Rightarrow> (s', Some x))"

text \<open>A block that cannot leave the handler.\<close>

definition pure_step :: "(st \<Rightarrow> st) \<Rightarrow> 'r step" where
  "pure_step f s = (f s, None)"

text \<open>\<^verbatim>\<open>return makeConfigGeneralResult(), err\<close>\<close>

definition fail_general :: "error \<Rightarrow> st \<Rightarrow> st \<times> ConfigGeneralResult option outcome option" where
  "fail_general err s = (s, Some (Return (Some (makeConfigGeneralResult s)) (Some err)))"

subsection \<open>Library paths (lines 93-113)\<close>

text \<open>The inner loop over \<^verbatim>\<open>existingPaths\<close>.\<close>

fun isNew :: "StashConfigInput list \<Rightarrow> StashConfigInput \<Rightarrow> bool" where
  "isNew [] x = True"
| "isNew (p # ps) x = (if Path p = Path x then False else isNew ps x)"

text \<open>
  The outer loop over \<^verbatim>\<open>input.Stashes\<close>: it returns the handler's result and the error of
  \<^verbatim>\<open>fsutil.DirExists\<close> at the first new path that does not exist.
\<close>

fun check_stashes :: "env \<Rightarrow> StashConfigInput list \<Rightarrow> StashConfigInput list \<Rightarrow> ConfigGeneralResult option step" where
  "check_stashes e existingPaths [] s = (s, None)"
| "check_stashes e existingPaths (x # xs) s =
     (if isNew existingPaths x then
        (let s1 = emit (FsDirExists (Path x)) s;
             (exists, err) = DirExists e (Path x)
         in if \<not> exists then (s1, Some (Return (Some (makeConfigGeneralResult s1)) err))
            else check_stashes e existingPaths xs s1)
      else check_stashes e existingPaths xs s)"

definition stashes_step :: "env \<Rightarrow> ConfigGeneralInput \<Rightarrow> ConfigGeneralResult option step" where
  "stashes_step e inp s =
     (let existingPaths = GetStashPaths s in
      case Stashes inp of
        None \<Rightarrow> (s, None)
      | Some ss \<Rightarrow>
          (case check_stashes e existingPaths ss s of
             (s1, Some x) \<Rightarrow> (s1, Some x)
           | (s1, None) \<Rightarrow>
               (record_local config_Stash (VStashes ss) (SetInterface config_Stash (VStashes ss) s1), None)))"

subsection \<open>The two closures (lines 115-135)\<close>

definition checkConfigOverride :: "key \<Rightarrow> st \<Rightarrow> st \<times> error option" where
  "checkConfigOverride k s =
     (let s1 = emit (CfgHasOverride k) s in
      if HasOverride s1 k then (s1, Some (OverriddenConfig k)) else (s1, None))"

definition validateDir :: "env \<Rightarrow> key \<Rightarrow> string \<Rightarrow> bool \<Rightarrow> st \<Rightarrow> st \<times> error option" where
  "validateDir e k v optional s =
     (case checkConfigOverride k s of
        (s1, Some err) \<Rightarrow> (s1, Some err)
      | (s1, None) \<Rightarrow>
          (if \<not> optional \<or> v \<noteq> [] then
             (let s2 = emit (FsEnsureDir v) s1 in
              case EnsureDir e v of Some m \<Rightarrow> (s2, Some (External m)) | None \<Rightarrow> (s2, None))
           else (s1, None)))"

subsection \<open>Database path (lines 137-149)\<close>

text \<open>
  \<^verbatim>\<open>filepath.Ext\<close> of the Go library: the suffix from the last dot of the last path
  element, scanning from the end up to the first separator.
\<close>

fun Ext_scan :: "string \<Rightarrow> string \<Rightarrow> string" where
  "Ext_scan [] acc = []"
| "Ext_scan (c # cs) acc =
     (if c = CHR ''/'' then [] else if c = CHR ''.'' then c # acc else Ext_scan cs (c # acc))"

definition filepath_Ext :: "string \<Rightarrow> string" where
  "filepath_Ext p = Ext_scan (rev p) []"

definition database_step :: "env \<Rightarrow> ConfigGeneralInput \<Rightarrow> ConfigGeneralResult option step" where
  "database_step e inp s =
     (let existingDBPath = GetDatabasePath s in
      case DatabasePath inp of
        None \<Rightarrow> (s, None)
      | Some p \<Rightarrow>
          if existingDBPath = p then (s, None)
          else (case checkConfigOverride config_Database s of
                  (s1, Some err) \<Rightarrow> fail_general err s1
                | (s1, None) \<Rightarrow>
                    (let ext = filepath_Ext p in
                     if ext \<noteq> ''.db'' \<and> ext \<noteq> ''.sqlite'' \<and> ext \<noteq> ''.sqlite3''
                     then fail_general InvalidDatabasePath s1
                     else (record_local config_Database (VString p)
                             (SetString config_Database p s1), None))))"

subsection \<open>Directory paths (lines 151-231)\<close>

definition backup_step :: "env \<Rightarrow> ConfigGeneralInput \<Rightarrow> ConfigGeneralResult option step" where
  "backup_step e inp s =
     (let existingBackupDirectoryPath = GetBackupDirectoryPath s in
      case BackupDirectoryPath inp of
        None \<Rightarrow> (s, None)
      | Some p \<Rightarrow>
          if existingBackupDirectoryPath = p then (s, None)
          else (case validateDir e config_BackupDirectoryPath p True s of
                  (s1, Some err) \<Rightarrow> fail_general err s1
                | (s1, None) \<Rightarrow>
                    (record_local config_BackupDirectoryPath (VString p)
                       (SetString config_BackupDirectoryPath p s1), None)))"

definition generated_step :: "env \<Rightarrow> ConfigGeneralInput \<Rightarrow> ConfigGeneralResult option step" where
  "generated_step e inp s =
     (let existingGeneratedPath = GetGeneratedPath s in
      case GeneratedPath inp of
        None \<Rightarrow> (s, None)
      | Some p \<Rightarrow>
          if existingGeneratedPath = p then (s, None)
          else (case validateDir e config_Generated p False s of
                  (s1, Some err) \<Rightarrow> fail_general err s1
                | (s1, None) \<Rightarrow>
                    (record_local config_Generated (VString p)
                       (SetString config_Generated p s1), None)))"

definition scrapers_step :: "env \<Rightarrow> ConfigGeneralInput \<Rightarrow> ConfigGeneralResult option step" where
  "scrapers_step e inp s =
     (let existingScrapersPath = GetScrapersPath s in
      case ScrapersPath inp of
        None \<Rightarrow> (s, None)
      | Some p \<Rightarrow>
          if existingScrapersPath = p then (s, None)
          else (case validateDir e config_ScrapersPath p False s of
                  (s1, Some err) \<Rightarrow> fail_general err s1
                | (s1, None) \<Rightarrow>
                    (record_local config_ScrapersPath (VString p)
                       (SetString config_ScrapersPath p
                          (s1\<lparr>refreshScraperCache := True, refreshScraperSource := True\<rparr>)), None)))"

definition plugins_step :: "env \<Rightarrow> ConfigGeneralInput \<Rightarrow> ConfigGeneralResult option step" where
  "plugins_step e inp s =
     (let existingPluginsPath = GetPluginsPath s in
      case PluginsPath inp of
        None \<Rightarrow> (s, None)
      | Some p \<Rightarrow>
          if existingPluginsPath = p then (s, None)
          else (case validateDir e config_PluginsPath p False s of
                  (s1, Some err) \<Rightarrow> fail_general err s1
                | (s1, None) \<Rightarrow>
                    (record_local config_PluginsPath (VString p)
                       (SetString config_PluginsPath p
                          (s1\<lparr>refreshPluginCache := True, refreshPluginSource := True\<rparr>)), None)))"

definition metadata_step :: "env \<Rightarrow> ConfigGeneralInput \<Rightarrow> ConfigGeneralResult option step" where
  "metadata_step e inp s =
     (let existingMetadataPath = GetMetadataPath s in
      case MetadataPath inp of
        None \<Rightarrow> (s, None)
      | Some p \<Rightarrow>
          if existingMetadataPath = p then (s, None)
          else (case validateDir e config_Metadata p True s of
                  (s1, Some err) \<Rightarrow> fail_general err s1
                | (s1, None) \<Rightarrow>
                    (record_local config_Metadata (VString p)
                       (SetString config_Metadata p s1), None)))"

definition cache_step :: "env \<Rightarrow> ConfigGeneralInput \<Rightarrow> ConfigGeneralResult option step" where
  "cache_step e inp s =
     (let existingCachePath = GetCachePath s in
      case CachePath inp of
        None \<Rightarrow> (s, None)
      | Some p \<Rightarrow>
          if existingCachePath = p then (s, None)
          else (case validateDir e config_Cache p True s of
                  (s1, Some err) \<Rightarrow> fail_general err s1
                | (s1, None) \<Rightarrow>
                    ((record_local config_Cache (VString p)
                        (SetString config_Cache p s1))\<lparr>refreshStreamManager := True\<rparr>, None)))"

definition blobsPath_step :: "env \<Rightarrow> ConfigGeneralInput \<Rightarrow> ConfigGeneralResult option step" where
  "blobsPath_step e inp s =
     (let existingBlobsPath = GetBlobsPath s in
      case BlobsPath inp of
        None \<Rightarrow> (s, None)
      | Some p \<Rightarrow>
          if existingBlobsPath = p then (s, None)
          else (case validateDir e config_BlobsPath p True s of
                  (s1, Some err) \<Rightarrow> fail_general err s1
                | (s1, None) \<Rightarrow>
                    ((record_local config_BlobsPath (VString p)
                        (SetString config_BlobsPath p s1))\<lparr>refreshBlobStorage := True\<rparr>, None)))"

subsection \<open>Blob storage, transcoder binaries, hashing algorithm (lines 233-287)\<close>

definition blobsStorage_step :: "env \<Rightarrow> ConfigGeneralInput \<Rightarrow> ConfigGeneralResult option step" where
  "blobsStorage_step e inp s =
     (case BlobsStorage inp of
        None \<Rightarrow> (s, None)
      | Some t \<Rightarrow>
          if t = GetBlobsStorage s then (s, None)
          else if t = BlobStorageTypeFilesystem \<and> GetBlobsPath s = [] then fail_general BlobsPathNotSet s
          else ((record_local config_BlobsStorage (VBlobsStorageType t)
                   (SetInterface config_BlobsStorage (VBlobsStorageType t) s))\<lparr>refreshBlobStorage := True\<rparr>,
                None))"

definition ffmpeg_step :: "env \<Rightarrow> ConfigGeneralInput \<Rightarrow> ConfigGeneralResult option step" where
  "ffmpeg_step e inp s =
     (case FfmpegPath inp of
        None \<Rightarrow> (s, None)
      | Some p \<Rightarrow>
          if p = GetFFMpegPath s then (s, None)
          else (case (if p \<noteq> [] then ValidateFFMpeg e p else None) of
                  Some m \<Rightarrow> fail_general (InvalidFFMpegPath m) s
                | None \<Rightarrow>
                    ((record_local config_FFMpegPath (VString p)
                        (SetString config_FFMpegPath p s))\<lparr>refreshFfmpeg := True\<rparr>, None)))"

definition ffprobe_step :: "env \<Rightarrow> ConfigGeneralInput \<Rightarrow> ConfigGeneralResult option step" where
  "ffprobe_step e inp s =
     (case FfprobePath inp of
        None \<Rightarrow> (s, None)
      | Some p \<Rightarrow>
          if p = GetFFProbePath s then (s, None)
          else (case (if p \<noteq> [] then ValidateFFProbe e p else None) of
                  Some m \<Rightarrow> fail_general (InvalidFFProbePath m) s
                | None \<Rightarrow>
                    ((record_local config_FFProbePath (VString p)
                        (SetString config_FFProbePath p s))\<lparr>refreshFfmpeg := True\<rparr>, None)))"

definition algorithm_step :: "env \<Rightarrow> ConfigGeneralInput \<Rightarrow> ConfigGeneralResult option step" where
  "algorithm_step e inp s =
     (case VideoFileNamingAlgorithm inp of
        None \<Rightarrow> (s, None)
      | Some a \<Rightarrow>
          if a = GetVideoFileNamingAlgorithm s then (s, None)
          else
            (let calculateMD5 = (case CalculateMd5 inp of None \<Rightarrow> IsCalculateMD5 s | Some b \<Rightarrow> b) in
             if \<not> calculateMD5 \<and> a = HashAlgorithmMd5 then fail_general CalculateMD5Required s
             else (case ValidateVideoFileNamingAlgorithm e a of
                     Some m \<Rightarrow> fail_general (External m) s
                   | None \<Rightarrow>
                       (record_local config_VideoFileNamingAlgorithm (VHashAlgorithm a)
                          (SetInterface config_VideoFileNamingAlgorithm (VHashAlgorithm a) s), None))))"

subsection \<open>Generation settings, credentials, logging (lines 289-365)\<close>

text \<open>\<^verbatim>\<open>c.SetString(key, v.String()); localConfig[key] = v.String()\<close> under \<^verbatim>\<open>if v != nil\<close>.\<close>

definition setEnumString :: "key \<Rightarrow> string option \<Rightarrow> st \<Rightarrow> st" where
  "setEnumString k v s =
     (case v of None \<Rightarrow> s | Some x \<Rightarrow> record_local k (VString x) (SetString k x s))"

text \<open>The first pattern of the list that \<^verbatim>\<open>regexp.Compile\<close> rejects, with its message.\<close>

fun first_invalid :: "env \<Rightarrow> string list \<Rightarrow> (string \<times> string) option" where
  "first_invalid e [] = None"
| "first_invalid e (r # rs) =
     (case regexp_Compile e r of Some m \<Rightarrow> Some (r, m) | None \<Rightarrow> first_invalid e rs)"

definition galleryCoverRegex_step :: "env \<Rightarrow> ConfigGeneralInput \<Rightarrow> ConfigGeneralResult option step" where
  "galleryCoverRegex_step e inp s =
     (case GalleryCoverRegex inp of
        None \<Rightarrow> (s, None)
      | Some r \<Rightarrow>
          (case regexp_Compile e r of
             Some m \<Rightarrow> fail_general (GalleryCoverRegexInvalid r m) s
           | None \<Rightarrow>
               (record_local config_GalleryCoverRegex (VString r)
                  (SetString config_GalleryCoverRegex r s), None)))"

text \<open>
  Lines 328-336. After the username is stored, the log message is chosen by
  \<^verbatim>\<open>*input.Password == ""\<close>: with \<^verbatim>\<open>input.Password\<close> nil the dereference panics.
\<close>

definition username_step :: "env \<Rightarrow> ConfigGeneralInput \<Rightarrow> ConfigGeneralResult option step" where
  "username_step e inp s =
     (case Username inp of
        None \<Rightarrow> (s, None)
      | Some u \<Rightarrow>
          if u = GetUsername s then (s, None)
          else
            (let s1 = record_local config_Username (VString u) (SetString config_Username u s) in
             case Password inp of
               None \<Rightarrow> (s1, Some Panic)
             | Some pw \<Rightarrow>
                 (emit (LogInfo (if pw = [] then ''Username cleared'' else ''Username changed'')) s1,
                  None)))"

definition password_step :: "env \<Rightarrow> ConfigGeneralInput \<Rightarrow> ConfigGeneralResult option step" where
  "password_step e inp s =
     (case Password inp of
        None \<Rightarrow> (s, None)
      | Some pw \<Rightarrow>
          (let currentPWHash = GetPasswordHash s in
           if pw \<noteq> currentPWHash then
             (record_local config_Password (VString pw)
                (SetPassword e pw
                   (emit (LogInfo (if pw = [] then ''Password cleared'' else ''Password changed'')) s)),
              None)
           else (s, None)))"

definition logLevel_step :: "env \<Rightarrow> ConfigGeneralInput \<Rightarrow> ConfigGeneralResult option step" where
  "logLevel_step e inp s =
     (case LogLevel inp of
        None \<Rightarrow> (s, None)
      | Some l \<Rightarrow>
          if l = GetLogLevel s then (s, None)
          else (emit (LoggerSetLogLevel l)
                  (record_local config_LogLevel (VString l) (SetString config_LogLevel l s)), None))"

subsection \<open>Exclusion patterns, extensions, stash boxes, arguments (lines 367-463)\<close>

definition excludes_step :: "env \<Rightarrow> ConfigGeneralInput \<Rightarrow> ConfigGeneralResult option step" where
  "excludes_step e inp s =
     (case Excludes inp of
        None \<Rightarrow> (s, None)
      | Some rs \<Rightarrow>
          (case first_invalid e rs of
             Some (r, m) \<Rightarrow> fail_general (VideoExclusionInvalid r m) s
           | None \<Rightarrow>
               (record_local config_Exclude (VStrings rs)
                  (SetInterface config_Exclude (VStrings rs) s), None)))"

definition imageExcludes_step :: "env \<Rightarrow> ConfigGeneralInput \<Rightarrow> ConfigGeneralResult option step" where
  "imageExcludes_step e inp s =
     (case ImageExcludes inp of
        None \<Rightarrow> (s, None)
      | Some rs \<Rightarrow>
          (case first_invalid e rs of
             Some (r, m) \<Rightarrow> fail_general (ImageExclusionInvalid r m) s
           | None \<Rightarrow>
               (record_local config_ImageExclude (VStrings rs)
                  (SetInterface config_ImageExclude (VStrings rs) s), None)))"

text \<open>Lines 411-414: the key is stored, and nothing is put into \<^verbatim>\<open>localConfig\<close>.\<close>

definition customPerformerImageLocation_step :: "ConfigGeneralInput \<Rightarrow> st \<Rightarrow> st" where
  "customPerformerImageLocation_step inp s =
     (case CustomPerformerImageLocation inp of
        None \<Rightarrow> s
      | Some l \<Rightarrow>
          emit (InitCustomPerformerImages l) (SetString config_CustomPerformerImageLocation l s))"

text \<open>Lines 416-422: on a validation error the handler returns \<^verbatim>\<open>nil, err\<close>.\<close>

definition stashBoxes_step :: "env \<Rightarrow> ConfigGeneralInput \<Rightarrow> ConfigGeneralResult option step" where
  "stashBoxes_step e inp s =
     (case StashBoxes inp of
        None \<Rightarrow> (s, None)
      | Some bs \<Rightarrow>
          (case ValidateStashBoxes e bs of
             Some m \<Rightarrow> (s, Some (Return None (Some (External m))))
           | None \<Rightarrow>
               (record_local config_StashBoxes (VStashBoxes bs)
                  (SetInterface config_StashBoxes (VStashBoxes bs) s), None)))"

definition pythonPath_step :: "ConfigGeneralInput \<Rightarrow> st \<Rightarrow> st" where
  "pythonPath_step inp s =
     (case PythonPath inp of
        None \<Rightarrow> s
      | Some p \<Rightarrow> setConfigString config_PythonPath (PythonPath inp) s)"

definition scraperPackageSources_step :: "ConfigGeneralInput \<Rightarrow> st \<Rightarrow> st" where
  "scraperPackageSources_step inp s =
     (case ScraperPackageSources inp of
        None \<Rightarrow> s
      | Some srcs \<Rightarrow>
          (record_local config_ScraperPackageSources (VPackageSources srcs)
             (SetInterface config_ScraperPackageSources (VPackageSources srcs) s))
          \<lparr>refreshScraperSource := True\<rparr>)"

definition pluginPackageSources_step :: "ConfigGeneralInput \<Rightarrow> st \<Rightarrow> st" where
  "pluginPackageSources_step inp s =
     (case PluginPackageSources inp of
        None \<Rightarrow> s
      | Some srcs \<Rightarrow>
          (record_local config_PluginPackageSources (VPackageSources srcs)
             (SetInterface config_PluginPackageSources (VPackageSources srcs) s))
          \<lparr>refreshPluginSource := True\<rparr>)"

subsection \<open>The blocks in the order of the source\<close>

text \<open>Lines 93-267: everything before the hashing-algorithm block.\<close>

definition steps_before_algorithm :: "env \<Rightarrow> ConfigGeneralInput \<Rightarrow> ConfigGeneralResult option step list" where
  "steps_before_algorithm e inp =
     [stashes_step e inp, database_step e inp, backup_step e inp, generated_step e inp,
      scrapers_step e inp, plugins_step e inp, metadata_step e inp, cache_step e inp,
      blobsPath_step e inp, blobsStorage_step e inp, ffmpeg_step e inp, ffprobe_step e inp]"

text \<open>Lines 93-315: everything before the gallery cover regex.\<close>

definition steps_before_galleryCoverRegex :: "env \<Rightarrow> ConfigGeneralInput \<Rightarrow> ConfigGeneralResult option step list" where
  "steps_before_galleryCoverRegex e inp =
     steps_before_algorithm e inp @
     [algorithm_step e inp,
      pure_step (setConfigBool config_CalculateMD5 (CalculateMd5 inp)),
      pure_step (setConfigInt config_ParallelTasks (ParallelTasks inp)),
      pure_step (setConfigBool config_PreviewAudio (PreviewAudio inp)),
      pure_step (setConfigInt config_PreviewSegments (PreviewSegments inp)),
      pure_step (setConfigFloat config_PreviewSegmentDuration (PreviewSegmentDuration inp)),
      pure_step (setConfigString config_PreviewExcludeStart (PreviewExcludeStart inp)),
      pure_step (setConfigString config_PreviewExcludeEnd (PreviewExcludeEnd inp)),
      pure_step (setEnumString config_PreviewPreset (PreviewPreset inp)),
      pure_step (setConfigBool config_TranscodeHardwareAcceleration (TranscodeHardwareAcceleration inp)),
      pure_step (setEnumString config_MaxTranscodeSize (MaxTranscodeSize inp)),
      pure_step (setEnumString config_MaxStreamingTranscodeSize (MaxStreamingTranscodeSize inp)),
      pure_step (setConfigBool config_WriteImageThumbnails (WriteImageThumbnails inp)),
      pure_step (setConfigBool config_CreateImageClipsFromVideos (CreateImageClipsFromVideos inp))]"

text \<open>Lines 93-365: everything before the video exclusion patterns.\<close>

definition steps_before_excludes :: "env \<Rightarrow> ConfigGeneralInput \<Rightarrow> ConfigGeneralResult option step list" where
  "steps_before_excludes e inp =
     steps_before_galleryCoverRegex e inp @
     [galleryCoverRegex_step e inp,
      username_step e inp,
      password_step e inp,
      pure_step (setConfigInt config_MaxSessionAge (MaxSessionAge inp)),
      pure_step (setConfigString config_LogFile (LogFile inp)),
      pure_step (setConfigBool config_LogOut (LogOut inp)),
      pure_step (setConfigBool config_LogAccess (LogAccess inp)),
      logLevel_step e inp]"

text \<open>Lines 93-377: everything before the image and gallery exclusion patterns.\<close>

definition steps_before_imageExcludes :: "env \<Rightarrow> ConfigGeneralInput \<Rightarrow> ConfigGeneralResult option step list" where
  "steps_before_imageExcludes e inp = steps_before_excludes e inp @ [excludes_step e inp]"

text \<open>Lines 93-463: the whole handler up to the commit.\<close>

definition ConfigureGeneral_steps :: "env \<Rightarrow> ConfigGeneralInput \<Rightarrow> ConfigGeneralResult option step list" where
  "ConfigureGeneral_steps e inp =
     steps_before_imageExcludes e inp @
     [imageExcludes_step e inp,
      pure_step (setInterfaceIfPresent config_VideoExtensions (map_option VStrings (VideoExtensions inp))),
      pure_step (setInterfaceIfPresent config_ImageExtensions (map_option VStrings (ImageExtensions inp))),
      pure_step (setInterfaceIfPresent config_GalleryExtensions (map_option VStrings (GalleryExtensions inp))),
      pure_step (setConfigBool config_CreateGalleriesFromFolders (CreateGalleriesFromFolders inp)),
      pure_step (customPerformerImageLocation_step inp),
      stashBoxes_step e inp,
      pure_step (pythonPath_step inp),
      pure_step (setInterfaceIfPresent config_TranscodeInputArgs (map_option VStrings (TranscodeInputArgs inp))),
      pure_step (setInterfaceIfPresent config_TranscodeOutputArgs (map_option VStrings (TranscodeOutputArgs inp))),
      pure_step (setInterfaceIfPresent config_LiveTranscodeInputArgs (map_option VStrings (LiveTranscodeInputArgs inp))),
      pure_step (setInterfaceIfPresent config_LiveTranscodeOutputArgs (map_option VStrings (LiveTranscodeOutputArgs inp))),
      pure_step (setConfigBool config_DrawFunscriptHeatmapRange (DrawFunscriptHeatmapRange inp)),
      pure_step (scraperPackageSources_step inp),
      pure_step (pluginPackageSources_step inp)]"

subsection \<open>Commit and refresh (lines 465-501)\<close>

definition when_flag :: "bool \<Rightarrow> (st \<Rightarrow> st) \<Rightarrow> st \<Rightarrow> st" where
  "when_flag b f s = (if b then f s else s)"

text \<open>Lines 475-499, after a successful \<^verbatim>\<open>Write\<close>.\<close>

definition refresh_general :: "st \<Rightarrow> st" where
  "refresh_general s =
     (let s1 = emit (Refresh RefreshConfig) s;
          s2 = when_flag (refreshScraperCache s1) (emit (Refresh RefreshScraperCache)) s1;
          s3 = when_flag (refreshPluginCache s2) (emit (Refresh RefreshPluginCache)) s2;
          s4 = when_flag (refreshFfmpeg s3)
                 (\<lambda>t. (emit (Refresh RefreshFFMpeg) t)\<lparr>refreshStreamManager := True\<rparr>) s3;
          s5 = when_flag (refreshStreamManager s4) (emit (Refresh RefreshStreamManager)) s4;
          s6 = when_flag (refreshBlobStorage s5) (emit (Refresh SetBlobStoreOptions)) s5;
          s7 = when_flag (refreshScraperSource s6) (emit (Refresh RefreshScraperSourceManager)) s6;
          s8 = when_flag (refreshPluginSource s7) (emit (Refresh RefreshPluginSourceManager)) s7
      in s8)"

definition commit_general :: "env \<Rightarrow> st \<Rightarrow> st \<times> ConfigGeneralResult option outcome" where
  "commit_general e s =
     (case Write e of
        Some m \<Rightarrow>
          (let s1 = emit (CfgWrite False) s in
           if AllowReadOnlyConfigFile s1
           then (s1, Return (Some (makeConfigGeneralResult s1)) (Some (ChangeSetPayload (localConfig s1))))
           else (s1, Return (Some (makeConfigGeneralResult s1)) (Some (External m))))
      | None \<Rightarrow>
          (let s1 = refresh_general (emit (CfgWrite True) s) in
           (s1, Return (Some (makeConfigGeneralResult s1)) None)))"

text \<open>The local variables as the handler declares them.\<close>

definition enter :: "config \<Rightarrow> st" where
  "enter c =
     \<lparr>values = values c, overrides = overrides c,
      AllowReadOnlyConfigFile = AllowReadOnlyConfigFile c,
      trace = [], localConfig = Map.empty,
      refreshScraperCache = False, refreshScraperSource = False,
      refreshPluginCache = False, refreshPluginSource = False,
      refreshStreamManager = False, refreshBlobStorage = False, refreshFfmpeg = False\<rparr>"

text \<open>
  The handler: the state it leaves (the store and the calls made) and what the call
  does (its return pair, or a panic).
\<close>

definition ConfigureGeneral :: "env \<Rightarrow> ConfigGeneralInput \<Rightarrow> config \<Rightarrow> st \<times> ConfigGeneralResult option outcome" where
  "ConfigureGeneral e inp c =
     (case run_steps (ConfigureGeneral_steps e inp) (enter c) of
        (s, Some x) \<Rightarrow> (s, x)
      | (s, None) \<Rightarrow> commit_general e s)"

section \<open>ConfigureScraping (lines 630-674)\<close>

record ConfigScrapingInput =
  ScraperUserAgent :: "string option"
  ScraperCDPPath :: "string option"
  ExcludeTagPatterns :: "string list option"
  ScraperCertCheck :: "bool option"

text \<open>
  Modelled from the spec: \<^verbatim>\<open>makeConfigScrapingResult\<close> is not part of this file; it is
  the materialized view of the store for this settings group.
\<close>

datatype ConfigScrapingResult = ConfigScrapingResult "key \<rightharpoonup> cfgval"

definition makeConfigScrapingResult :: "'a config_scheme \<Rightarrow> ConfigScrapingResult" where
  "makeConfigScrapingResult c = ConfigScrapingResult (values c)"

definition scraperUserAgent_step :: "ConfigScrapingInput \<Rightarrow> st \<Rightarrow> st" where
  "scraperUserAgent_step inp s =
     (case ScraperUserAgent inp of
        None \<Rightarrow> s
      | Some a \<Rightarrow>
          (record_local config_ScraperUserAgent (VString a)
             (SetString config_ScraperUserAgent a s))\<lparr>refreshScraperCache := True\<rparr>)"

definition scraperCDPPath_step :: "ConfigScrapingInput \<Rightarrow> st \<Rightarrow> st" where
  "scraperCDPPath_step inp s =
     (case ScraperCDPPath inp of
        None \<Rightarrow> s
      | Some p \<Rightarrow>
          (record_local config_ScraperCDPPath (VString p)
             (SetString config_ScraperCDPPath p s))\<lparr>refreshScraperCache := True\<rparr>)"

definition excludeTagPatterns_step :: "env \<Rightarrow> ConfigScrapingInput \<Rightarrow> ConfigScrapingResult option step" where
  "excludeTagPatterns_step e inp s =
     (case ExcludeTagPatterns inp of
        None \<Rightarrow> (s, None)
      | Some rs \<Rightarrow>
          (case first_invalid e rs of
             Some (r, m) \<Rightarrow>
               (s, Some (Return (Some (makeConfigScrapingResult s)) (Some (TagExclusionInvalid r m))))
           | None \<Rightarrow>
               (record_local config_ScraperExcludeTagPatterns (VStrings rs)
                  (SetInterface config_ScraperExcludeTagPatterns (VStrings rs) s), None)))"

text \<open>Lines 634-645: everything before the tag exclusion patterns.\<close>

definition steps_before_excludeTagPatterns :: "ConfigScrapingInput \<Rightarrow> ConfigScrapingResult option step list" where
  "steps_before_excludeTagPatterns inp =
     [pure_step (scraperUserAgent_step inp), pure_step (scraperCDPPath_step inp)]"

definition ConfigureScraping_steps :: "env \<Rightarrow> ConfigScrapingInput \<Rightarrow> ConfigScrapingResult option step list" where
  "ConfigureScraping_steps e inp =
     steps_before_excludeTagPatterns inp @
     [excludeTagPatterns_step e inp,
      pure_step (setConfigBool config_ScraperCertCheck (ScraperCertCheck inp))]"

text \<open>Lines 660-673: the scraper cache is refreshed, then the store is written.\<close>

definition commit_scraping :: "env \<Rightarrow> st \<Rightarrow> st \<times> ConfigScrapingResult option outcome" where
  "commit_scraping e s =
     (let s1 = when_flag (refreshScraperCache s) (emit (Refresh RefreshScraperCache)) s in
      case Write e of
        Some m \<Rightarrow>
          (let s2 = emit (CfgWrite False) s1 in
           if AllowReadOnlyConfigFile s2
           then (s2, Return (Some (makeConfigScrapingResult s2)) (Some (ChangeSetPayload (localConfig s2))))
           else (s2, Return (Some (makeConfigScrapingResult s2)) (Some (External m))))
      | None \<Rightarrow>
          (let s2 = emit (CfgWrite True) s1 in
           (s2, Return (Some (makeConfigScrapingResult s2)) None)))"

definition ConfigureScraping :: "env \<Rightarrow> ConfigScrapingInput \<Rightarrow> config \<Rightarrow> st \<times> ConfigScrapingResult option outcome" where
  "ConfigureScraping e inp c =
     (case run_steps (ConfigureScraping_steps e inp) (enter c) of
        (s, Some x) \<Rightarrow> (s, x)
      | (s, None) \<Rightarrow> commit_scraping e s)"

section \<open>GenerateAPIKey (lines 718-748)\<close>

record GenerateAPIKeyInput =
  Clear :: "bool option"

text \<open>
  Lines 722-732: the new key, or the error of \<^verbatim>\<open>manager.GenerateAPIKey\<close>. The key stays
  the empty string unless the clear flag is unset and the stored username is not empty.
\<close>

definition newAPIKey :: "env \<Rightarrow> GenerateAPIKeyInput \<Rightarrow> st \<Rightarrow> string + string" where
  "newAPIKey e inp s =
     (if (case Clear inp of None \<Rightarrow> True | Some b \<Rightarrow> \<not> b) then
        (let username = GetUsername s in
         if username \<noteq> [] then
           (case manager_GenerateAPIKey e username of
              (k, Some m) \<Rightarrow> Inl m
            | (k, None) \<Rightarrow> Inr k)
         else Inr [])
      else Inr [])"

definition GenerateAPIKey :: "env \<Rightarrow> GenerateAPIKeyInput \<Rightarrow> config \<Rightarrow> st \<times> string outcome" where
  "GenerateAPIKey e inp c =
     (let s = enter c in
      case newAPIKey e inp s of
        Inl m \<Rightarrow> (s, Return [] (Some (External m)))
      | Inr k \<Rightarrow>
          (let s1 = record_local config_ApiKey (VString k) (SetString config_ApiKey k s) in
           case Write e of
             Some m \<Rightarrow>
               (let s2 = emit (CfgWrite False) s1 in
                if AllowReadOnlyConfigFile s2
                then (s2, Return k (Some (ChangeSetPayload (localConfig s2))))
                else (s2, Return k (Some (External m))))
           | None \<Rightarrow> (emit (CfgWrite True) s1, Return k None)))"

section \<open>Inputs and collaborators used in the examples\<close>

text \<open>The update record with every field absent.\<close>

definition no_update :: ConfigGeneralInput where
  "no_update =
     \<lparr>Stashes = None, DatabasePath = None, BackupDirectoryPath = None, GeneratedPath = None,
      ScrapersPath = None, PluginsPath = None, MetadataPath = None, CachePath = None,
      BlobsPath = None, BlobsStorage = None, FfmpegPath = None, FfprobePath = None,
      VideoFileNamingAlgorithm = None, CalculateMd5 = None, ParallelTasks = None,
      PreviewAudio = None, PreviewSegments = None, PreviewSegmentDuration = None,
      PreviewExcludeStart = None, PreviewExcludeEnd = None, PreviewPreset = None,
      TranscodeHardwareAcceleration = None, MaxTranscodeSize = None,
      MaxStreamingTranscodeSize = None, WriteImageThumbnails = None,
      CreateImageClipsFromVideos = None, GalleryCoverRegex = None, Username = None,
      Password = None, MaxSessionAge = None, LogFile = None, LogOut = None, LogAccess = None,
      LogLevel = None, Excludes = None, ImageExcludes = None, VideoExtensions = None,
      ImageExtensions = None, GalleryExtensions = None, CreateGalleriesFromFolders = None,
      CustomPerformerImageLocation = None, StashBoxes = None, PythonPath = None,
      TranscodeInputArgs = None, TranscodeOutputArgs = None, LiveTranscodeInputArgs = None,
      LiveTranscodeOutputArgs = None, DrawFunscriptHeatmapRange = None,
      ScraperPackageSources = None, PluginPackageSources = None\<rparr>"

definition no_scraping_update :: ConfigScrapingInput where
  "no_scraping_update =
     \<lparr>ScraperUserAgent = None, ScraperCDPPath = None, ExcludeTagPatterns = None,
      ScraperCertCheck = None\<rparr>"

text \<open>
  Collaborators for the examples: no directory exists but \<^verbatim>\<open>/data\<close>, directories can be
  created, the only malformed pattern is \<^verbatim>\<open>(\<close>, every binary and algorithm is valid, a
  stash box needs an endpoint, and the configuration file can be written.
\<close>

definition example_env :: env where
  "example_env =
     \<lparr>dir_check = (\<lambda>p. if p = ''/data'' then None else Some ''path does not exist''),
      EnsureDir = (\<lambda>p. None),
      regexp_Compile = (\<lambda>r. if r = ''('' then Some ''missing closing )'' else None),
      ValidateFFMpeg = (\<lambda>p. None),
      ValidateFFProbe = (\<lambda>p. None),
      ValidateVideoFileNamingAlgorithm = (\<lambda>a. None),
      ValidateStashBoxes =
        (\<lambda>bs. if list_ex (\<lambda>b. Endpoint b = []) bs then Some ''endpoint cannot be blank''
              else None),
      Write = None,
      HashPassword = (\<lambda>pw. ''hash:'' @ pw),
      manager_GenerateAPIKey = (\<lambda>u. (''key-of-'' @ u, None))\<rparr>"

text \<open>The same collaborators with a configuration file that cannot be written.\<close>

definition readonly_env :: env where
  "readonly_env = example_env\<lparr>Write := Some ''open config.yml: read-only file system''\<rparr>"

text \<open>An empty store with no overridden key, and the same store tolerating a read-only file.\<close>

definition empty_config :: config where
  "empty_config = \<lparr>values = Map.empty, overrides = {}, AllowReadOnlyConfigFile = False\<rparr>"

definition tolerant_config :: config where
  "tolerant_config = \<lparr>values = Map.empty, overrides = {}, AllowReadOnlyConfigFile = True\<rparr>"

section \<open>Reasoning about the calls of a run\<close>

text \<open>
  The definitions of this section are not part of the program: they describe which
  calls a block may make and how a block may leave the handler, so that facts about the
  blocks carry over to the whole handler.
\<close>

text \<open>
  The calls a block that governs the keys \<open>K\<close> may make: it sets and checks only keys of
  \<open>K\<close>, it never writes the store to disk and never refreshes a subsystem, and it checks
  the existence of a directory only when \<open>fs\<close> allows it.
\<close>

definition touches :: "bool \<Rightarrow> key set \<Rightarrow> event \<Rightarrow> bool" where
  "touches fs K ev =
     (case ev of
        CfgSet k v \<Rightarrow> k \<in> K
      | CfgHasOverride k \<Rightarrow> k \<in> K
      | CfgWrite b \<Rightarrow> False
      | Refresh h \<Rightarrow> False
      | FsDirExists p \<Rightarrow> fs
      | _ \<Rightarrow> True)"

text \<open>The store after the setter calls of a list of calls.\<close>

fun replay :: "event list \<Rightarrow> (key \<rightharpoonup> cfgval) \<Rightarrow> (key \<rightharpoonup> cfgval)" where
  "replay [] m = m"
| "replay (ev # evs) m = replay evs (case ev of CfgSet k v \<Rightarrow> m(k \<mapsto> v) | _ \<Rightarrow> m)"

text \<open>
  From \<open>s\<close> to \<open>s'\<close> the handler made only calls satisfying \<open>P\<close>, the store changed
  only through the setters among them, and the transcoder flag was not reset.
\<close>

definition extends :: "(event \<Rightarrow> bool) \<Rightarrow> st \<Rightarrow> st \<Rightarrow> bool" where
  "extends P s s' \<longleftrightarrow>
     overrides s' = overrides s \<and>
     AllowReadOnlyConfigFile s' = AllowReadOnlyConfigFile s \<and>
     (refreshFfmpeg s \<longrightarrow> refreshFfmpeg s') \<and>
     (\<exists>evs. trace s' = trace s @ evs \<and> list_all P evs \<and> values s' = replay evs (values s))"

text \<open>A block all of whose runs make only calls satisfying \<open>P\<close>.\<close>

definition confined :: "(event \<Rightarrow> bool) \<Rightarrow> 'r step \<Rightarrow> bool" where
  "confined P f \<longleftrightarrow> (\<forall>s s' x. f s = (s', x) \<longrightarrow> extends P s s')"

text \<open>A block that leaves the handler only with an outcome of \<open>X\<close>.\<close>

definition exits_in :: "'r outcome set \<Rightarrow> 'r step \<Rightarrow> bool" where
  "exits_in X f \<longleftrightarrow> (\<forall>s s' x. f s = (s', Some x) \<longrightarrow> x \<in> X)"

text \<open>The outcomes that return an error.\<close>

definition failures :: "'r outcome set" where
  "failures = {x. \<exists>r err. x = Return r (Some err)}"

text \<open>The outcomes that return an error other than the MD5 policy error.\<close>

definition plain_failures :: "'r outcome set" where
  "plain_failures = {x. \<exists>r err. x = Return r (Some err) \<and> err \<noteq> CalculateMD5Required}"

text \<open>
  The input field that carries the new value of each path key on which the handler
  checks the override lock (lines 137-231).
\<close>

definition governed_path :: "key \<Rightarrow> ConfigGeneralInput \<Rightarrow> string option" where
  "governed_path k inp =
     (if k = config_Database then DatabasePath inp
      else if k = config_BackupDirectoryPath then BackupDirectoryPath inp
      else if k = config_Generated then GeneratedPath inp
      else if k = config_ScrapersPath then ScrapersPath inp
      else if k = config_PluginsPath then PluginsPath inp
      else if k = config_Metadata then MetadataPath inp
      else if k = config_Cache then CachePath inp
      else if k = config_BlobsPath then BlobsPath inp
      else None)"

text \<open>
  The blocks the handler runs before it reaches the block of each of those keys, in the
  order of the source (lines 93-221).
\<close>

definition steps_before_path :: "key \<Rightarrow> env \<Rightarrow> ConfigGeneralInput \<Rightarrow> ConfigGeneralResult option step list" where
  "steps_before_path k e inp =
     (if k = config_Database then
        [stashes_step e inp]
      else if k = config_BackupDirectoryPath then
        [stashes_step e inp, database_step e inp]
      else if k = config_Generated then
        [stashes_step e inp, database_step e inp, backup_step e inp]
      else if k = config_ScrapersPath then
        [stashes_step e inp, database_step e inp, backup_step e inp,
         generated_step e inp]
      else if k = config_PluginsPath then
        [stashes_step e inp, database_step e inp, backup_step e inp,
         generated_step e inp, scrapers_step e inp]
      else if k = config_Metadata then
        [stashes_step e inp, database_step e inp, backup_step e inp,
         generated_step e inp, scrapers_step e inp, plugins_step e inp]
      else if k = config_Cache then
        [stashes_step e inp, database_step e inp, backup_step e inp,
         generated_step e inp, scrapers_step e inp, plugins_step e inp,
         metadata_step e inp]
      else if k = config_BlobsPath then
        [stashes_step e inp, database_step e inp, backup_step e inp,
         generated_step e inp, scrapers_step e inp, plugins_step e inp,
         metadata_step e inp, cache_step e inp]
      else [])"

text \<open>The calls of the commit: writing the store and refreshing a subsystem.\<close>

definition commit_event :: "event \<Rightarrow> bool" where
  "commit_event ev = (case ev of CfgWrite b \<Rightarrow> True | Refresh h \<Rightarrow> True | _ \<Rightarrow> False)"

text \<open>A call that checks the existence of a directory checks a path that no stored library root has.\<close>

definition checks_new_only :: "StashConfigInput list \<Rightarrow> event \<Rightarrow> bool" where
  "checks_new_only existing ev =
     (case ev of FsDirExists p \<Rightarrow> p \<notin> Path ` set existing | _ \<Rightarrow> True)"

text \<open>The calls that check the existence of a directory.\<close>

definition only_dir_checks :: "event \<Rightarrow> bool" where
  "only_dir_checks ev = (case ev of FsDirExists p \<Rightarrow> True | _ \<Rightarrow> False)"


section \<open>Facts about the blocks\<close>

lemmas general_defs =
  ConfigureGeneral_def ConfigureGeneral_steps_def steps_before_imageExcludes_def
  steps_before_excludes_def steps_before_galleryCoverRegex_def steps_before_algorithm_def
  stashes_step_def database_step_def backup_step_def generated_step_def scrapers_step_def
  plugins_step_def metadata_step_def cache_step_def blobsPath_step_def blobsStorage_step_def
  ffmpeg_step_def ffprobe_step_def algorithm_step_def galleryCoverRegex_step_def
  username_step_def password_step_def logLevel_step_def excludes_step_def
  imageExcludes_step_def customPerformerImageLocation_step_def stashBoxes_step_def
  pythonPath_step_def scraperPackageSources_step_def pluginPackageSources_step_def
  pure_step_def setConfigString_def setConfigBool_def setConfigInt_def setConfigFloat_def
  setEnumString_def setInterfaceIfPresent_def commit_general_def refresh_general_def
  when_flag_def enter_def fail_general_def checkConfigOverride_def validateDir_def
  HasOverride_def

lemmas store_defs =
  SetString_def SetBool_def SetInt_def SetFloat_def SetInterface_def SetPassword_def
  cfg_Set_def record_local_def emit_def getString_def getBool_def GetStashPaths_def
  GetDatabasePath_def GetBackupDirectoryPath_def GetGeneratedPath_def GetScrapersPath_def
  GetPluginsPath_def GetMetadataPath_def GetCachePath_def GetBlobsPath_def GetBlobsStorage_def
  GetFFMpegPath_def GetFFProbePath_def GetVideoFileNamingAlgorithm_def IsCalculateMD5_def
  GetUsername_def GetPasswordHash_def GetLogLevel_def makeConfigGeneralResult_def DirExists_def

lemmas example_defs =
  no_update_def no_scraping_update_def example_env_def readonly_env_def empty_config_def
  tolerant_config_def

lemmas scraping_defs =
  ConfigureScraping_def ConfigureScraping_steps_def steps_before_excludeTagPatterns_def
  scraperUserAgent_step_def scraperCDPPath_step_def excludeTagPatterns_step_def
  commit_scraping_def makeConfigScrapingResult_def pure_step_def setConfigBool_def
  when_flag_def enter_def

lemmas apikey_defs =
  GenerateAPIKey_def newAPIKey_def enter_def GetUsername_def getString_def SetString_def
  cfg_Set_def record_local_def emit_def Let_def

subsection \<open>Composing the blocks\<close>

lemma replay_append: "replay (xs @ ys) m = replay ys (replay xs m)"
  by (induction xs arbitrary: m) simp_all

lemma extends_refl: "extends P s s"
  by (simp add: extends_def)

lemma extends_trans:
  assumes "extends P s t" and "extends P t u"
  shows "extends P s u"
proof -
  from assms(1) obtain xs where xs: "trace t = trace s @ xs" "list_all P xs"
      "values t = replay xs (values s)"
    by (auto simp: extends_def)
  from assms(2) obtain ys where ys: "trace u = trace t @ ys" "list_all P ys"
      "values u = replay ys (values t)"
    by (auto simp: extends_def)
  have "trace u = trace s @ (xs @ ys) \<and> list_all P (xs @ ys) \<and>
        values u = replay (xs @ ys) (values s)"
    using xs ys by (simp add: replay_append)
  then have "\<exists>evs. trace u = trace s @ evs \<and> list_all P evs \<and> values u = replay evs (values s)"
    by blast
  then show ?thesis
    using assms by (simp add: extends_def)
qed

lemma extends_mono:
  assumes "extends P s t" and "\<And>ev. P ev \<Longrightarrow> Q ev"
  shows "extends Q s t"
proof -
  from assms(1) obtain xs where xs: "trace t = trace s @ xs" "list_all P xs"
      "values t = replay xs (values s)"
    by (auto simp: extends_def)
  from xs(2) assms(2) have "list_all Q xs"
    by (simp add: list_all_iff)
  with xs have "\<exists>evs. trace t = trace s @ evs \<and> list_all Q evs \<and> values t = replay evs (values s)"
    by blast
  then show ?thesis
    using assms(1) by (simp add: extends_def)
qed

lemma extends_emit: "P ev \<Longrightarrow> (\<And>k v. ev \<noteq> CfgSet k v) \<Longrightarrow> extends P s (emit ev s)"
  by (cases ev) (auto simp: extends_def emit_def)

lemma confinedI:
  assumes "\<And>s s' x. f s = (s', x) \<Longrightarrow> extends P s s'"
  shows "confined P f"
  using assms unfolding confined_def by blast

lemma confinedD: "confined P f \<Longrightarrow> f s = (s', x) \<Longrightarrow> extends P s s'"
  unfolding confined_def by blast

lemma check_stashes_extends:
  "check_stashes e ex xs s = (s', x) \<Longrightarrow> extends (touches True K) s s'"
proof (induction xs arbitrary: s)
  case Nil
  then show ?case by (simp add: extends_refl)
next
  case (Cons a xs)
  let ?s1 = "emit (FsDirExists (Path a)) s"
  have step: "extends (touches True K) s ?s1"
    by (rule extends_emit) (simp_all add: touches_def)
  show ?case
  proof (cases "isNew ex a")
    case False
    with Cons show ?thesis by simp
  next
    case True
    show ?thesis
    proof (cases "fst (DirExists e (Path a))")
      case False
      with True Cons.prems have "s' = ?s1"
        by (simp add: Let_def split: prod.splits)
      with step show ?thesis by simp
    next
      case exists: True
      with True Cons.prems have "check_stashes e ex xs ?s1 = (s', x)"
        by (simp add: Let_def split: prod.splits)
      then have "extends (touches True K) ?s1 s'"
        by (rule Cons.IH)
      with step show ?thesis
        by (rule extends_trans)
    qed
  qed
qed

lemma run_steps_confined:
  assumes "\<And>f. f \<in> set fs \<Longrightarrow> confined P f"
  shows "confined P (run_steps fs)"
proof (rule confinedI)
  fix s s' x
  assume "run_steps fs s = (s', x)"
  with assms show "extends P s s'"
  proof (induction fs arbitrary: s)
    case Nil
    then show ?case by (simp add: extends_refl)
  next
    case (Cons f fs)
    obtain t y where f: "f s = (t, y)" by (cases "f s")
    have st: "extends P s t"
      using Cons.prems(1) f by (auto dest: confinedD)
    show ?case
    proof (cases y)
      case None
      with f Cons.prems(2) have "run_steps fs t = (s', x)" by simp
      then have "extends P t s'"
        using Cons.IH Cons.prems(1) by simp
      with st show ?thesis by (rule extends_trans)
    next
      case (Some r)
      with f Cons.prems(2) have "s' = t" by simp
      with st show ?thesis by simp
    qed
  qed
qed

lemma run_steps_append:
  "run_steps (fs @ gs) s =
     (case run_steps fs s of (s', None) \<Rightarrow> run_steps gs s' | (s', Some x) \<Rightarrow> (s', Some x))"
  by (induction fs arbitrary: s) (auto split: prod.splits option.splits)

lemma touches_weaken: "touches fs K ev \<Longrightarrow> K \<subseteq> K' \<Longrightarrow> touches True K' ev"
  by (cases ev) (auto simp: touches_def)

lemma confined_weaken:
  "confined (touches fs K) f \<Longrightarrow> K \<subseteq> K' \<Longrightarrow> confined (touches True K') f"
proof (rule confinedI)
  fix s s' x
  assume "confined (touches fs K) f" and "K \<subseteq> K'" and "f s = (s', x)"
  then have "extends (touches fs K) s s'"
    by (simp add: confinedD)
  then show "extends (touches True K') s s'"
  proof (rule extends_mono)
    fix ev
    assume "touches fs K ev"
    then show "touches True K' ev"
      using \<open>K \<subseteq> K'\<close> by (rule touches_weaken)
  qed
qed

subsection \<open>The calls each block makes\<close>

lemmas unfold_step =
  extends_def checkConfigOverride_def validateDir_def fail_general_def touches_def
  HasOverride_def Let_def pure_step_def
  SetString_def SetBool_def SetInt_def SetFloat_def SetInterface_def SetPassword_def
  cfg_Set_def record_local_def emit_def

lemma stashes_fp: "confined (touches True {config_Stash}) (stashes_step e inp)"
proof (rule confinedI)
  fix s s' x
  assume run: "stashes_step e inp s = (s', x)"
  show "extends (touches True {config_Stash}) s s'"
  proof (cases "Stashes inp")
    case None
    with run show ?thesis by (simp add: stashes_step_def extends_refl)
  next
    case (Some ss)
    obtain t y where chk: "check_stashes e (GetStashPaths s) ss s = (t, y)"
      by (cases "check_stashes e (GetStashPaths s) ss s")
    then have st: "extends (touches True {config_Stash}) s t"
      by (rule check_stashes_extends)
    show ?thesis
    proof (cases y)
      case None
      have "extends (touches True {config_Stash}) t
              (record_local config_Stash (VStashes ss) (SetInterface config_Stash (VStashes ss) t))"
        by (simp add: unfold_step)
      with st None run Some chk show ?thesis
        by (auto simp: stashes_step_def intro: extends_trans)
    next
      case (Some r)
      with st run chk \<open>Stashes inp = Some ss\<close> show ?thesis
        by (simp add: stashes_step_def)
    qed
  qed
qed

lemma database_fp: "confined (touches False {config_Database}) (database_step e inp)"
  by (rule confinedI) (auto simp: database_step_def unfold_step split: option.splits if_splits)

lemma backup_fp: "confined (touches False {config_BackupDirectoryPath}) (backup_step e inp)"
  by (rule confinedI) (auto simp: backup_step_def unfold_step split: option.splits if_splits)

lemma generated_fp: "confined (touches False {config_Generated}) (generated_step e inp)"
  by (rule confinedI) (auto simp: generated_step_def unfold_step split: option.splits if_splits)

lemma scrapers_fp: "confined (touches False {config_ScrapersPath}) (scrapers_step e inp)"
  by (rule confinedI) (auto simp: scrapers_step_def unfold_step split: option.splits if_splits)

lemma plugins_fp: "confined (touches False {config_PluginsPath}) (plugins_step e inp)"
  by (rule confinedI) (auto simp: plugins_step_def unfold_step split: option.splits if_splits)

lemma metadata_fp: "confined (touches False {config_Metadata}) (metadata_step e inp)"
  by (rule confinedI) (auto simp: metadata_step_def unfold_step split: option.splits if_splits)

lemma cache_fp: "confined (touches False {config_Cache}) (cache_step e inp)"
  by (rule confinedI) (auto simp: cache_step_def unfold_step split: option.splits if_splits)

lemma blobsPath_fp: "confined (touches False {config_BlobsPath}) (blobsPath_step e inp)"
  by (rule confinedI) (auto simp: blobsPath_step_def unfold_step split: option.splits if_splits)

lemma blobsStorage_fp: "confined (touches False {config_BlobsStorage}) (blobsStorage_step e inp)"
  by (rule confinedI) (auto simp: blobsStorage_step_def unfold_step split: option.splits if_splits)

lemma ffmpeg_fp: "confined (touches False {config_FFMpegPath}) (ffmpeg_step e inp)"
  by (rule confinedI) (auto simp: ffmpeg_step_def unfold_step split: option.splits if_splits)

lemma ffprobe_fp: "confined (touches False {config_FFProbePath}) (ffprobe_step e inp)"
  by (rule confinedI) (auto simp: ffprobe_step_def unfold_step split: option.splits if_splits)

lemma algorithm_fp: "confined (touches False {config_VideoFileNamingAlgorithm}) (algorithm_step e inp)"
  by (rule confinedI) (auto simp: algorithm_step_def unfold_step split: option.splits if_splits)

lemma galleryCoverRegex_fp: "confined (touches False {config_GalleryCoverRegex}) (galleryCoverRegex_step e inp)"
  by (rule confinedI) (auto simp: galleryCoverRegex_step_def unfold_step split: option.splits if_splits)

lemma username_fp: "confined (touches False {config_Username}) (username_step e inp)"
  by (rule confinedI) (auto simp: username_step_def unfold_step split: option.splits if_splits)

lemma password_fp: "confined (touches False {config_Password}) (password_step e inp)"
  by (rule confinedI) (auto simp: password_step_def unfold_step split: option.splits if_splits)

lemma logLevel_fp: "confined (touches False {config_LogLevel}) (logLevel_step e inp)"
  by (rule confinedI) (auto simp: logLevel_step_def unfold_step split: option.splits if_splits)

lemma excludes_fp: "confined (touches False {config_Exclude}) (excludes_step e inp)"
  by (rule confinedI) (auto simp: excludes_step_def unfold_step split: option.splits if_splits)

lemma imageExcludes_fp: "confined (touches False {config_ImageExclude}) (imageExcludes_step e inp)"
  by (rule confinedI) (auto simp: imageExcludes_step_def unfold_step split: option.splits if_splits)

lemma stashBoxes_fp: "confined (touches False {config_StashBoxes}) (stashBoxes_step e inp)"
  by (rule confinedI) (auto simp: stashBoxes_step_def unfold_step split: option.splits if_splits)

lemma setConfigString_fp: "confined (touches False {k}) (pure_step (setConfigString k v))"
  by (rule confinedI) (auto simp: setConfigString_def unfold_step split: option.splits)

lemma setConfigBool_fp: "confined (touches False {k}) (pure_step (setConfigBool k v))"
  by (rule confinedI) (auto simp: setConfigBool_def unfold_step split: option.splits)

lemma setConfigInt_fp: "confined (touches False {k}) (pure_step (setConfigInt k v))"
  by (rule confinedI) (auto simp: setConfigInt_def unfold_step split: option.splits)

lemma setConfigFloat_fp: "confined (touches False {k}) (pure_step (setConfigFloat k v))"
  by (rule confinedI) (auto simp: setConfigFloat_def unfold_step split: option.splits)

lemma setEnumString_fp: "confined (touches False {k}) (pure_step (setEnumString k v))"
  by (rule confinedI) (auto simp: setEnumString_def unfold_step split: option.splits)

lemma setInterfaceIfPresent_fp: "confined (touches False {k}) (pure_step (setInterfaceIfPresent k v))"
  by (rule confinedI) (auto simp: setInterfaceIfPresent_def unfold_step split: option.splits)

lemma customPerformerImageLocation_fp:
  "confined (touches False {config_CustomPerformerImageLocation})
     (pure_step (customPerformerImageLocation_step inp))"
  by (rule confinedI) (auto simp: customPerformerImageLocation_step_def unfold_step split: option.splits)

lemma pythonPath_fp: "confined (touches False {config_PythonPath}) (pure_step (pythonPath_step inp))"
  by (rule confinedI) (auto simp: pythonPath_step_def setConfigString_def unfold_step split: option.splits)

lemma scraperPackageSources_fp:
  "confined (touches False {config_ScraperPackageSources}) (pure_step (scraperPackageSources_step inp))"
  by (rule confinedI) (auto simp: scraperPackageSources_step_def unfold_step split: option.splits)

lemma pluginPackageSources_fp:
  "confined (touches False {config_PluginPackageSources}) (pure_step (pluginPackageSources_step inp))"
  by (rule confinedI) (auto simp: pluginPackageSources_step_def unfold_step split: option.splits)

lemmas step_fps =
  stashes_fp database_fp backup_fp generated_fp scrapers_fp plugins_fp metadata_fp cache_fp
  blobsPath_fp blobsStorage_fp ffmpeg_fp ffprobe_fp algorithm_fp galleryCoverRegex_fp
  username_fp password_fp logLevel_fp excludes_fp imageExcludes_fp stashBoxes_fp
  setConfigString_fp setConfigBool_fp setConfigInt_fp setConfigFloat_fp setEnumString_fp
  setInterfaceIfPresent_fp customPerformerImageLocation_fp pythonPath_fp
  scraperPackageSources_fp pluginPackageSources_fp

lemmas step_fps_weak = step_fps[THEN confined_weaken]

lemmas steps_defs =
  ConfigureGeneral_steps_def steps_before_imageExcludes_def steps_before_excludes_def
  steps_before_galleryCoverRegex_def steps_before_algorithm_def

subsection \<open>How each block leaves the handler\<close>

lemma exits_in_mono: "exits_in X f \<Longrightarrow> X \<subseteq> Y \<Longrightarrow> exits_in Y f"
  unfolding exits_in_def by blast

lemma pure_step_exits: "exits_in X (pure_step g)"
  by (simp add: exits_in_def pure_step_def)

lemma check_stashes_exits: "check_stashes e ex xs s = (s', Some x) \<Longrightarrow> x \<in> plain_failures"
  by (induction xs arbitrary: s)
     (auto simp: Let_def DirExists_def plain_failures_def split: if_splits option.splits)

lemma stashes_ex: "exits_in plain_failures (stashes_step e inp)"
  unfolding exits_in_def stashes_step_def
  by (auto simp: Let_def split: option.splits prod.splits dest: check_stashes_exits)

lemmas unfold_exit =
  exits_in_def plain_failures_def checkConfigOverride_def validateDir_def fail_general_def Let_def

lemma database_ex: "exits_in plain_failures (database_step e inp)"
  by (auto simp: database_step_def unfold_exit split: option.splits if_splits)

lemma backup_ex: "exits_in plain_failures (backup_step e inp)"
  by (auto simp: backup_step_def unfold_exit split: option.splits if_splits)

lemma generated_ex: "exits_in plain_failures (generated_step e inp)"
  by (auto simp: generated_step_def unfold_exit split: option.splits if_splits)

lemma scrapers_ex: "exits_in plain_failures (scrapers_step e inp)"
  by (auto simp: scrapers_step_def unfold_exit split: option.splits if_splits)

lemma plugins_ex: "exits_in plain_failures (plugins_step e inp)"
  by (auto simp: plugins_step_def unfold_exit split: option.splits if_splits)

lemma metadata_ex: "exits_in plain_failures (metadata_step e inp)"
  by (auto simp: metadata_step_def unfold_exit split: option.splits if_splits)

lemma cache_ex: "exits_in plain_failures (cache_step e inp)"
  by (auto simp: cache_step_def unfold_exit split: option.splits if_splits)

lemma blobsPath_ex: "exits_in plain_failures (blobsPath_step e inp)"
  by (auto simp: blobsPath_step_def unfold_exit split: option.splits if_splits)

lemma blobsStorage_ex: "exits_in plain_failures (blobsStorage_step e inp)"
  by (auto simp: blobsStorage_step_def unfold_exit split: option.splits if_splits)

lemma ffmpeg_ex: "exits_in plain_failures (ffmpeg_step e inp)"
  by (auto simp: ffmpeg_step_def unfold_exit split: option.splits if_splits)

lemma ffprobe_ex: "exits_in plain_failures (ffprobe_step e inp)"
  by (auto simp: ffprobe_step_def unfold_exit split: option.splits if_splits)

lemma algorithm_ex: "exits_in failures (algorithm_step e inp)"
  by (auto simp: algorithm_step_def failures_def unfold_exit split: option.splits if_splits)

lemma galleryCoverRegex_ex: "exits_in plain_failures (galleryCoverRegex_step e inp)"
  by (auto simp: galleryCoverRegex_step_def unfold_exit split: option.splits if_splits)

lemma username_ex: "exits_in {Panic} (username_step e inp)"
  by (auto simp: username_step_def unfold_exit split: option.splits if_splits)

lemma password_ex: "exits_in X (password_step e inp)"
  by (auto simp: password_step_def unfold_exit split: option.splits if_splits)

lemma logLevel_ex: "exits_in X (logLevel_step e inp)"
  by (auto simp: logLevel_step_def unfold_exit split: option.splits if_splits)

lemma excludes_ex: "exits_in plain_failures (excludes_step e inp)"
  by (auto simp: excludes_step_def unfold_exit split: option.splits if_splits)

lemma imageExcludes_ex: "exits_in plain_failures (imageExcludes_step e inp)"
  by (auto simp: imageExcludes_step_def unfold_exit split: option.splits if_splits)

lemma stashBoxes_ex: "exits_in plain_failures (stashBoxes_step e inp)"
  by (auto simp: stashBoxes_step_def unfold_exit split: option.splits if_splits)

lemmas step_exs =
  stashes_ex database_ex backup_ex generated_ex scrapers_ex plugins_ex metadata_ex cache_ex
  blobsPath_ex blobsStorage_ex ffmpeg_ex ffprobe_ex algorithm_ex galleryCoverRegex_ex
  username_ex excludes_ex imageExcludes_ex stashBoxes_ex

lemma run_steps_exits:
  assumes "\<And>f. f \<in> set fs \<Longrightarrow> exits_in X f"
  shows "exits_in X (run_steps fs)"
  unfolding exits_in_def
proof (intro allI impI)
  fix s s' x
  assume "run_steps fs s = (s', Some x)"
  with assms show "x \<in> X"
  proof (induction fs arbitrary: s)
    case Nil
    then show ?case by simp
  next
    case (Cons f fs)
    obtain t y where f: "f s = (t, y)" by (cases "f s")
    show ?case
    proof (cases y)
      case None
      with f Cons.prems(2) have "run_steps fs t = (s', Some x)" by simp
      with Cons.IH Cons.prems(1) show ?thesis by simp
    next
      case (Some r)
      with f Cons.prems(2) have "r = x" by simp
      with Some f Cons.prems(1)[of f] show ?thesis
        by (auto simp: exits_in_def)
    qed
  qed
qed

subsection \<open>A run that stops at the override lock\<close>

lemma replay_untouched:
  "list_all (touches fs K) evs \<Longrightarrow> k \<notin> K \<Longrightarrow> replay evs m k = m k"
  by (induction evs arbitrary: m) (auto simp: touches_def split: event.splits)

lemma extends_touchesD:
  assumes "extends (touches fs K) s s'" and "k \<notin> K"
  shows "values s' k = values s k"
    and "overrides s' = overrides s"
    and "CfgSet k v \<in> set (trace s') \<Longrightarrow> CfgSet k v \<in> set (trace s)"
    and "CfgHasOverride k \<in> set (trace s') \<Longrightarrow> CfgHasOverride k \<in> set (trace s)"
    and "CfgWrite b \<in> set (trace s') \<Longrightarrow> CfgWrite b \<in> set (trace s)"
    and "Refresh h \<in> set (trace s') \<Longrightarrow> Refresh h \<in> set (trace s)"
proof -
  from assms(1) obtain evs where evs: "trace s' = trace s @ evs" "list_all (touches fs K) evs"
      "values s' = replay evs (values s)" and ov: "overrides s' = overrides s"
    by (auto simp: extends_def)
  show "values s' k = values s k"
    using evs assms(2) by (simp add: replay_untouched)
  show "overrides s' = overrides s" by (rule ov)
  have no: "\<And>ev. ev \<in> set evs \<Longrightarrow> touches fs K ev"
    using evs(2) by (simp add: list_all_iff)
  show "CfgSet k v \<in> set (trace s') \<Longrightarrow> CfgSet k v \<in> set (trace s)"
    using evs(1) no[of "CfgSet k v"] assms(2) by (auto simp: touches_def)
  show "CfgHasOverride k \<in> set (trace s') \<Longrightarrow> CfgHasOverride k \<in> set (trace s)"
    using evs(1) no[of "CfgHasOverride k"] assms(2) by (auto simp: touches_def)
  show "CfgWrite b \<in> set (trace s') \<Longrightarrow> CfgWrite b \<in> set (trace s)"
    using evs(1) no[of "CfgWrite b"] by (auto simp: touches_def)
  show "Refresh h \<in> set (trace s') \<Longrightarrow> Refresh h \<in> set (trace s)"
    using evs(1) no[of "Refresh h"] by (auto simp: touches_def)
qed

lemma blocked_run:
  assumes pre_c: "\<And>g. g \<in> set pre \<Longrightarrow> confined (touches True (- {k})) g"
      and pre_x: "\<And>g. g \<in> set pre \<Longrightarrow> exits_in plain_failures g"
      and blocked: "\<And>s. k \<in> overrides s \<Longrightarrow> values s k = values c k \<Longrightarrow>
                      f s = fail_general (OverriddenConfig k) (emit (CfgHasOverride k) s)"
      and ov: "k \<in> overrides c"
      and run: "run_steps (pre @ f # post) (enter c) = (s, x)"
  shows "\<exists>r err. x = Some (Return r (Some err)) \<and> (\<forall>v. CfgSet k v \<notin> set (trace s)) \<and>
           values s k = values c k \<and> (\<forall>b. CfgWrite b \<notin> set (trace s)) \<and>
           (CfgHasOverride k \<in> set (trace s) \<longrightarrow> err = OverriddenConfig k) \<and>
           (\<forall>t. run_steps pre (enter c) = (t, None) \<longrightarrow>
                s = emit (CfgHasOverride k) t \<and> r = Some (makeConfigGeneralResult s) \<and>
                err = OverriddenConfig k) \<and>
           (\<forall>t out. run_steps pre (enter c) = (t, Some out) \<longrightarrow>
                s = t \<and> out = Return r (Some err) \<and> CfgHasOverride k \<notin> set (trace s))"
proof -
  obtain s1 y where pre: "run_steps pre (enter c) = (s1, y)"
    by (cases "run_steps pre (enter c)")
  have "confined (touches True (- {k})) (run_steps pre)"
    using pre_c by (rule run_steps_confined)
  then have ext: "extends (touches True (- {k})) (enter c) s1"
    using pre by (rule confinedD)
  have k: "k \<notin> - {k}" by simp
  note facts = extends_touchesD[OF ext k]
  have start: "trace (enter c) = []" "values (enter c) = values c" "overrides (enter c) = overrides c"
    by (simp_all add: enter_def)
  show ?thesis
  proof (cases y)
    case (Some out)
    have "exits_in plain_failures (run_steps pre)"
      using pre_x by (rule run_steps_exits)
    with pre Some have "out \<in> plain_failures"
      by (auto simp: exits_in_def)
    moreover from run pre Some have "s = s1" "x = Some out"
      by (simp_all add: run_steps_append)
    ultimately show ?thesis
      using facts start pre Some by (auto simp: plain_failures_def)
  next
    case None
    have "f s1 = fail_general (OverriddenConfig k) (emit (CfgHasOverride k) s1)"
      using facts(1,2) start ov by (intro blocked) simp_all
    with run pre None have "s = emit (CfgHasOverride k) s1"
        "x = Some (Return (Some (makeConfigGeneralResult s)) (Some (OverriddenConfig k)))"
      by (auto simp: run_steps_append fail_general_def)
    then show ?thesis
      using facts start pre None by (auto simp: emit_def)
  qed
qed

subsection \<open>The commit\<close>

lemma extends_trans' [trans]:
  "extends P s t \<Longrightarrow> extends P t u \<Longrightarrow> extends P s u"
  by (rule extends_trans)

lemma extends_when_emit:
  "P ev \<Longrightarrow> (\<And>k v. ev \<noteq> CfgSet k v) \<Longrightarrow> extends P s (when_flag b (emit ev) s)"
  by (simp add: when_flag_def extends_emit extends_refl)

lemma extends_when_ffmpeg:
  "extends commit_event s
     (when_flag b (\<lambda>t. (emit (Refresh RefreshFFMpeg) t)\<lparr>refreshStreamManager := True\<rparr>) s)"
  by (simp add: when_flag_def extends_def emit_def commit_event_def)

lemma refresh_general_extends: "extends commit_event s (refresh_general s)"
proof -
  define s1 where "s1 = emit (Refresh RefreshConfig) s"
  define s2 where "s2 = when_flag (refreshScraperCache s1) (emit (Refresh RefreshScraperCache)) s1"
  define s3 where "s3 = when_flag (refreshPluginCache s2) (emit (Refresh RefreshPluginCache)) s2"
  define s4 where "s4 = when_flag (refreshFfmpeg s3)
                 (\<lambda>t. (emit (Refresh RefreshFFMpeg) t)\<lparr>refreshStreamManager := True\<rparr>) s3"
  define s5 where "s5 = when_flag (refreshStreamManager s4) (emit (Refresh RefreshStreamManager)) s4"
  define s6 where "s6 = when_flag (refreshBlobStorage s5) (emit (Refresh SetBlobStoreOptions)) s5"
  define s7 where "s7 = when_flag (refreshScraperSource s6) (emit (Refresh RefreshScraperSourceManager)) s6"
  define s8 where "s8 = when_flag (refreshPluginSource s7) (emit (Refresh RefreshPluginSourceManager)) s7"
  have eq: "refresh_general s = s8"
    unfolding refresh_general_def Let_def s8_def s7_def s6_def s5_def s4_def s3_def s2_def s1_def
    by (rule refl)
  have "extends commit_event s s1"
    unfolding s1_def by (rule extends_emit) (simp_all add: commit_event_def)
  also have "extends commit_event s1 s2"
    unfolding s2_def by (rule extends_when_emit) (simp_all add: commit_event_def)
  also have "extends commit_event s2 s3"
    unfolding s3_def by (rule extends_when_emit) (simp_all add: commit_event_def)
  also have "extends commit_event s3 s4"
    unfolding s4_def by (rule extends_when_ffmpeg)
  also have "extends commit_event s4 s5"
    unfolding s5_def by (rule extends_when_emit) (simp_all add: commit_event_def)
  also have "extends commit_event s5 s6"
    unfolding s6_def by (rule extends_when_emit) (simp_all add: commit_event_def)
  also have "extends commit_event s6 s7"
    unfolding s7_def by (rule extends_when_emit) (simp_all add: commit_event_def)
  also have "extends commit_event s7 s8"
    unfolding s8_def by (rule extends_when_emit) (simp_all add: commit_event_def)
  finally show ?thesis
    by (simp add: eq)
qed

lemma commit_general_extends:
  assumes "commit_general e s = (s', out)"
  shows "extends commit_event s s'"
proof (cases "Write e")
  case None
  with assms have "s' = refresh_general (emit (CfgWrite True) s)"
    by (auto simp: commit_general_def Let_def)
  moreover have "extends commit_event s (emit (CfgWrite True) s)"
    by (rule extends_emit) (simp_all add: commit_event_def)
  ultimately show ?thesis
    using refresh_general_extends[of "emit (CfgWrite True) s"] by (auto intro: extends_trans)
next
  case (Some m)
  with assms have "s' = emit (CfgWrite False) s"
    by (auto simp: commit_general_def Let_def split: if_splits)
  then show ?thesis
    by (simp add: extends_emit commit_event_def)
qed

subsection \<open>The library path check\<close>

lemma isNew_iff: "isNew ex x \<longleftrightarrow> Path x \<notin> Path ` set ex"
  by (induction ex) auto

lemma extends_emit_dir: "P (FsDirExists p) \<Longrightarrow> extends P s (emit (FsDirExists p) s)"
  by (rule extends_emit) simp_all

lemma check_stashes_new:
  "check_stashes e ex xs s = (s', x) \<Longrightarrow> extends (checks_new_only ex) s s'"
proof (induction xs arbitrary: s)
  case Nil
  then show ?case by (simp add: extends_refl)
next
  case (Cons a xs)
  show ?case
  proof (cases "isNew ex a")
    case False
    with Cons show ?thesis by simp
  next
    case True
    let ?s1 = "emit (FsDirExists (Path a)) s"
    have step: "extends (checks_new_only ex) s ?s1"
      using True by (intro extends_emit_dir) (simp add: checks_new_only_def isNew_iff)
    show ?thesis
    proof (cases "fst (DirExists e (Path a))")
      case False
      with True Cons.prems have "s' = ?s1"
        by (simp add: Let_def split: prod.splits)
      with step show ?thesis by simp
    next
      case exists: True
      with True Cons.prems have "check_stashes e ex xs ?s1 = (s', x)"
        by (simp add: Let_def split: prod.splits)
      then have "extends (checks_new_only ex) ?s1 s'"
        by (rule Cons.IH)
      with step show ?thesis
        by (rule extends_trans)
    qed
  qed
qed

lemma check_stashes_missing:
  assumes "List.find (\<lambda>x. isNew ex x \<and> \<not> fst (DirExists e (Path x))) xs = Some a"
  shows "\<exists>s'. check_stashes e ex xs s =
                 (s', Some (Return (Some (makeConfigGeneralResult s')) (snd (DirExists e (Path a)))))
              \<and> extends only_dir_checks s s'"
  using assms
proof (induction xs arbitrary: s)
  case Nil
  then show ?case by simp
next
  case (Cons b xs)
  let ?s1 = "emit (FsDirExists (Path b)) s"
  have step: "extends only_dir_checks s ?s1"
    by (intro extends_emit_dir) (simp add: only_dir_checks_def)
  show ?case
  proof (cases "isNew ex b")
    case False
    with Cons show ?thesis by simp
  next
    case True
    show ?thesis
    proof (cases "fst (DirExists e (Path b))")
      case False
      with True Cons.prems have "a = b" by simp
      with True False step show ?thesis
        by (auto simp: Let_def split: prod.splits)
    next
      case exists: True
      with True Cons.prems
      have "List.find (\<lambda>x. isNew ex x \<and> \<not> fst (DirExists e (Path x))) xs = Some a"
        by simp
      from Cons.IH[OF this, of ?s1] obtain s' where
        "check_stashes e ex xs ?s1 =
           (s', Some (Return (Some (makeConfigGeneralResult s')) (snd (DirExists e (Path a)))))"
        "extends only_dir_checks ?s1 s'"
        by blast
      with True exists step show ?thesis
        by (auto simp: Let_def split: prod.splits intro: extends_trans)
    qed
  qed
qed

lemma extends_traceD:
  assumes "extends P s s'" and "ev \<in> set (trace s')"
  shows "ev \<in> set (trace s) \<or> P ev"
  using assms by (auto simp: extends_def list_all_iff)

lemma extends_only_dir_checksD:
  assumes "extends only_dir_checks s s'"
  shows "values s' = values s" and "CfgSet k v \<in> set (trace s') \<Longrightarrow> CfgSet k v \<in> set (trace s)"
proof -
  from assms obtain evs where evs: "trace s' = trace s @ evs" "list_all only_dir_checks evs"
      "values s' = replay evs (values s)"
    by (auto simp: extends_def)
  have "replay evs m = m" if "list_all only_dir_checks evs" for m
    using that by (induction evs arbitrary: m) (auto simp: only_dir_checks_def split: event.splits)
  with evs show "values s' = values s" by simp
  show "CfgSet k v \<in> set (trace s') \<Longrightarrow> CfgSet k v \<in> set (trace s)"
    using evs by (auto simp: list_all_iff only_dir_checks_def)
qed

lemma stashes_step_new:
  assumes "stashes_step e inp s = (s', x)"
  shows "extends (checks_new_only (GetStashPaths s)) s s'"
proof (cases "Stashes inp")
  case None
  with assms show ?thesis by (simp add: stashes_step_def extends_refl)
next
  case (Some ss)
  obtain t y where chk: "check_stashes e (GetStashPaths s) ss s = (t, y)"
    by (cases "check_stashes e (GetStashPaths s) ss s")
  then have st: "extends (checks_new_only (GetStashPaths s)) s t"
    by (rule check_stashes_new)
  show ?thesis
  proof (cases y)
    case None
    have "extends (checks_new_only (GetStashPaths s)) t
            (record_local config_Stash (VStashes ss) (SetInterface config_Stash (VStashes ss) t))"
      by (simp add: extends_def checks_new_only_def SetInterface_def cfg_Set_def record_local_def)
    with st None assms Some chk show ?thesis
      by (auto simp: stashes_step_def intro: extends_trans)
  next
    case (Some r)
    with st assms chk \<open>Stashes inp = Some ss\<close> show ?thesis
      by (simp add: stashes_step_def)
  qed
qed

lemma confined_weaken_keys:
  "confined (touches fs K) f \<Longrightarrow> K \<subseteq> K' \<Longrightarrow> confined (touches fs K') f"
proof (rule confinedI)
  fix s s' x
  assume "confined (touches fs K) f" and sub: "K \<subseteq> K'" and "f s = (s', x)"
  then have "extends (touches fs K) s s'"
    by (simp add: confinedD)
  then show "extends (touches fs K') s s'"
  proof (rule extends_mono)
    fix ev
    assume "touches fs K ev"
    then show "touches fs K' ev"
      using sub by (cases ev) (auto simp: touches_def)
  qed
qed

lemmas later_fps =
  database_fp backup_fp generated_fp scrapers_fp plugins_fp metadata_fp cache_fp
  blobsPath_fp blobsStorage_fp ffmpeg_fp ffprobe_fp algorithm_fp galleryCoverRegex_fp
  username_fp password_fp logLevel_fp excludes_fp imageExcludes_fp stashBoxes_fp
  setConfigString_fp setConfigBool_fp setConfigInt_fp setConfigFloat_fp setEnumString_fp
  setInterfaceIfPresent_fp customPerformerImageLocation_fp pythonPath_fp
  scraperPackageSources_fp pluginPackageSources_fp

lemmas later_fps_weak = later_fps[THEN confined_weaken_keys]

lemma steps_head:
  "ConfigureGeneral_steps e inp = stashes_step e inp # tl (ConfigureGeneral_steps e inp)"
  by (simp add: steps_defs)

lemma steps_tail_confined:
  "f \<in> set (tl (ConfigureGeneral_steps e inp)) \<Longrightarrow> confined (touches False UNIV) f"
  by (auto simp: steps_defs intro!: later_fps_weak)

lemma ConfigureGeneral_checks_new:
  assumes "ConfigureGeneral e inp c = (s, out)"
  shows "extends (checks_new_only (GetStashPaths c)) (enter c) s"
proof -
  let ?Q = "checks_new_only (GetStashPaths c)"
  have paths: "GetStashPaths (enter c) = GetStashPaths c"
    by (simp add: GetStashPaths_def enter_def)
  obtain s1 y1 where first: "stashes_step e inp (enter c) = (s1, y1)"
    by (cases "stashes_step e inp (enter c)")
  then have e1: "extends ?Q (enter c) s1"
    using stashes_step_new[of e inp "enter c"] paths by simp
  show ?thesis
  proof (cases y1)
    case (Some x)
    with first assms have "s = s1"
      by (subst (asm) ConfigureGeneral_def, subst (asm) steps_head) simp
    with e1 show ?thesis by simp
  next
    case None
    obtain s2 y2 where rest: "run_steps (tl (ConfigureGeneral_steps e inp)) s1 = (s2, y2)"
      by (cases "run_steps (tl (ConfigureGeneral_steps e inp)) s1")
    have "confined (touches False UNIV) (run_steps (tl (ConfigureGeneral_steps e inp)))"
      by (rule run_steps_confined) (rule steps_tail_confined)
    then have "extends (touches False UNIV) s1 s2"
      using rest by (rule confinedD)
    then have e2: "extends ?Q s1 s2"
      by (rule extends_mono) (auto simp: touches_def checks_new_only_def split: event.splits)
    have whole: "run_steps (ConfigureGeneral_steps e inp) (enter c) = (s2, y2)"
      using first None rest by (subst steps_head) simp
    show ?thesis
    proof (cases y2)
      case (Some x)
      with whole assms have "s = s2"
        by (simp add: ConfigureGeneral_def)
      with e1 e2 show ?thesis by (auto intro: extends_trans)
    next
      case None
      with whole assms have "commit_general e s2 = (s, out)"
        by (simp add: ConfigureGeneral_def)
      then have "extends commit_event s2 s"
        by (rule commit_general_extends)
      then have "extends ?Q s2 s"
        by (rule extends_mono) (auto simp: checks_new_only_def commit_event_def split: event.splits)
      with e1 e2 show ?thesis by (auto intro: extends_trans)
    qed
  qed
qed

subsection \<open>The override lock of each path key\<close>

lemma general_blocked:
  assumes split: "\<exists>post. ConfigureGeneral_steps e inp = pre @ f # post"
      and pre_c: "\<And>g. g \<in> set pre \<Longrightarrow> confined (touches True (- {k})) g"
      and pre_x: "\<And>g. g \<in> set pre \<Longrightarrow> exits_in plain_failures g"
      and blocked: "\<And>s. k \<in> overrides s \<Longrightarrow> values s k = values c k \<Longrightarrow>
                      f s = fail_general (OverriddenConfig k) (emit (CfgHasOverride k) s)"
      and ov: "k \<in> overrides c"
  shows "\<exists>s r err. ConfigureGeneral e inp c = (s, Return r (Some err)) \<and>
           (\<forall>v. CfgSet k v \<notin> set (trace s)) \<and> values s k = values c k \<and>
           (\<forall>b. CfgWrite b \<notin> set (trace s)) \<and>
           (CfgHasOverride k \<in> set (trace s) \<longrightarrow> err = OverriddenConfig k) \<and>
           (\<forall>t. run_steps pre (enter c) = (t, None) \<longrightarrow>
                s = emit (CfgHasOverride k) t \<and> r = Some (makeConfigGeneralResult s) \<and>
                err = OverriddenConfig k) \<and>
           (\<forall>t out. run_steps pre (enter c) = (t, Some out) \<longrightarrow>
                s = t \<and> out = Return r (Some err) \<and> CfgHasOverride k \<notin> set (trace s))"
proof -
  from split obtain post where steps: "ConfigureGeneral_steps e inp = pre @ f # post" ..
  obtain s x where run: "run_steps (pre @ f # post) (enter c) = (s, x)"
    by (cases "run_steps (pre @ f # post) (enter c)")
  from blocked_run[OF pre_c pre_x blocked ov run]
  obtain r err where out: "x = Some (Return r (Some err))"
      "\<forall>v. CfgSet k v \<notin> set (trace s)" "values s k = values c k"
      "\<forall>b. CfgWrite b \<notin> set (trace s)"
      "CfgHasOverride k \<in> set (trace s) \<longrightarrow> err = OverriddenConfig k"
      "\<forall>t. run_steps pre (enter c) = (t, None) \<longrightarrow>
                s = emit (CfgHasOverride k) t \<and> r = Some (makeConfigGeneralResult s) \<and>
                err = OverriddenConfig k"
      "\<forall>t out. run_steps pre (enter c) = (t, Some out) \<longrightarrow>
                s = t \<and> out = Return r (Some err) \<and> CfgHasOverride k \<notin> set (trace s)"
    by blast
  from run steps out(1) have "ConfigureGeneral e inp c = (s, Return r (Some err))"
    by (simp add: ConfigureGeneral_def)
  with out show ?thesis by blast
qed

lemmas blocked_unfold =
  getString_def validateDir_def checkConfigOverride_def HasOverride_def emit_def Let_def

lemma database_blocked:
  assumes "DatabasePath inp = Some p" "getString c config_Database \<noteq> p"
          "config_Database \<in> overrides s" "values s config_Database = values c config_Database"
  shows "database_step e inp s =
           fail_general (OverriddenConfig config_Database) (emit (CfgHasOverride config_Database) s)"
  using assms by (simp add: database_step_def GetDatabasePath_def blocked_unfold)

lemma backup_blocked:
  assumes "BackupDirectoryPath inp = Some p" "getString c config_BackupDirectoryPath \<noteq> p"
          "config_BackupDirectoryPath \<in> overrides s"
          "values s config_BackupDirectoryPath = values c config_BackupDirectoryPath"
  shows "backup_step e inp s =
           fail_general (OverriddenConfig config_BackupDirectoryPath)
             (emit (CfgHasOverride config_BackupDirectoryPath) s)"
  using assms by (simp add: backup_step_def GetBackupDirectoryPath_def blocked_unfold)

lemma generated_blocked:
  assumes "GeneratedPath inp = Some p" "getString c config_Generated \<noteq> p"
          "config_Generated \<in> overrides s" "values s config_Generated = values c config_Generated"
  shows "generated_step e inp s =
           fail_general (OverriddenConfig config_Generated) (emit (CfgHasOverride config_Generated) s)"
  using assms by (simp add: generated_step_def GetGeneratedPath_def blocked_unfold)

lemma scrapers_blocked:
  assumes "ScrapersPath inp = Some p" "getString c config_ScrapersPath \<noteq> p"
          "config_ScrapersPath \<in> overrides s"
          "values s config_ScrapersPath = values c config_ScrapersPath"
  shows "scrapers_step e inp s =
           fail_general (OverriddenConfig config_ScrapersPath)
             (emit (CfgHasOverride config_ScrapersPath) s)"
  using assms by (simp add: scrapers_step_def GetScrapersPath_def blocked_unfold)

lemma plugins_blocked:
  assumes "PluginsPath inp = Some p" "getString c config_PluginsPath \<noteq> p"
          "config_PluginsPath \<in> overrides s"
          "values s config_PluginsPath = values c config_PluginsPath"
  shows "plugins_step e inp s =
           fail_general (OverriddenConfig config_PluginsPath)
             (emit (CfgHasOverride config_PluginsPath) s)"
  using assms by (simp add: plugins_step_def GetPluginsPath_def blocked_unfold)

lemma metadata_blocked:
  assumes "MetadataPath inp = Some p" "getString c config_Metadata \<noteq> p"
          "config_Metadata \<in> overrides s" "values s config_Metadata = values c config_Metadata"
  shows "metadata_step e inp s =
           fail_general (OverriddenConfig config_Metadata) (emit (CfgHasOverride config_Metadata) s)"
  using assms by (simp add: metadata_step_def GetMetadataPath_def blocked_unfold)

lemma cache_blocked:
  assumes "CachePath inp = Some p" "getString c config_Cache \<noteq> p"
          "config_Cache \<in> overrides s" "values s config_Cache = values c config_Cache"
  shows "cache_step e inp s =
           fail_general (OverriddenConfig config_Cache) (emit (CfgHasOverride config_Cache) s)"
  using assms by (simp add: cache_step_def GetCachePath_def blocked_unfold)

lemma blobsPath_blocked:
  assumes "BlobsPath inp = Some p" "getString c config_BlobsPath \<noteq> p"
          "config_BlobsPath \<in> overrides s" "values s config_BlobsPath = values c config_BlobsPath"
  shows "blobsPath_step e inp s =
           fail_general (OverriddenConfig config_BlobsPath) (emit (CfgHasOverride config_BlobsPath) s)"
  using assms by (simp add: blobsPath_step_def GetBlobsPath_def blocked_unfold)

lemma governed_path_cases:
  assumes "governed_path k inp = Some p"
  obtains "k = config_Database" "DatabasePath inp = Some p"
  | "k = config_BackupDirectoryPath" "BackupDirectoryPath inp = Some p"
  | "k = config_Generated" "GeneratedPath inp = Some p"
  | "k = config_ScrapersPath" "ScrapersPath inp = Some p"
  | "k = config_PluginsPath" "PluginsPath inp = Some p"
  | "k = config_Metadata" "MetadataPath inp = Some p"
  | "k = config_Cache" "CachePath inp = Some p"
  | "k = config_BlobsPath" "BlobsPath inp = Some p"
  using assms unfolding governed_path_def by (auto split: if_splits)

subsection \<open>The transcoder flag\<close>

lemma extends_flagD: "extends P s s' \<Longrightarrow> refreshFfmpeg s \<Longrightarrow> refreshFfmpeg s'"
  by (simp add: extends_def)

lemma extends_trace_mono: "extends P s s' \<Longrightarrow> ev \<in> set (trace s) \<Longrightarrow> ev \<in> set (trace s')"
  by (auto simp: extends_def)

lemma extends_prefix: "extends P s s' \<Longrightarrow> \<exists>evs. trace s' = trace s @ evs \<and> list_all P evs"
  by (auto simp: extends_def)

lemma steps_confined_any:
  "f \<in> set (ConfigureGeneral_steps e inp) \<Longrightarrow> confined (touches True UNIV) f"
  by (auto simp: steps_defs intro!: step_fps_weak)

lemma body_extends:
  assumes "run_steps (ConfigureGeneral_steps e inp) (enter c) = (s, y)"
  shows "extends (touches True UNIV) (enter c) s"
proof -
  have "confined (touches True UNIV) (run_steps (ConfigureGeneral_steps e inp))"
    by (rule run_steps_confined) (rule steps_confined_any)
  then show ?thesis
    using assms by (rule confinedD)
qed

lemma body_no_commit_events:
  assumes "run_steps (ConfigureGeneral_steps e inp) (enter c) = (s, y)"
  shows "CfgWrite b \<notin> set (trace s)" and "Refresh h \<notin> set (trace s)"
proof -
  note ext = body_extends[OF assms]
  show "CfgWrite b \<notin> set (trace s)"
    using extends_traceD[OF ext, of "CfgWrite b"] by (auto simp: enter_def touches_def)
  show "Refresh h \<notin> set (trace s)"
    using extends_traceD[OF ext, of "Refresh h"] by (auto simp: enter_def touches_def)
qed

text \<open>A call in which the store was written ran every block and then the refresh.\<close>

lemma committed_run:
  assumes "CfgWrite True \<in> set (trace (fst (ConfigureGeneral e inp c)))"
  obtains s where "run_steps (ConfigureGeneral_steps e inp) (enter c) = (s, None)"
    and "fst (ConfigureGeneral e inp c) = refresh_general (emit (CfgWrite True) s)"
proof -
  obtain s y where run: "run_steps (ConfigureGeneral_steps e inp) (enter c) = (s, y)"
    by (cases "run_steps (ConfigureGeneral_steps e inp) (enter c)")
  note quiet = body_no_commit_events[OF run]
  show ?thesis
  proof (cases y)
    case (Some x)
    with run have "fst (ConfigureGeneral e inp c) = s"
      by (simp add: ConfigureGeneral_def)
    with assms quiet(1) show ?thesis by simp
  next
    case None
    show ?thesis
    proof (cases "Write e")
      case (Some m)
      with run None have "fst (ConfigureGeneral e inp c) = emit (CfgWrite False) s"
        by (simp add: ConfigureGeneral_def commit_general_def Let_def)
      with assms quiet(1) show ?thesis by (simp add: emit_def)
    next
      case w: None
      with run None have "fst (ConfigureGeneral e inp c) = refresh_general (emit (CfgWrite True) s)"
        by (simp add: ConfigureGeneral_def commit_general_def Let_def)
      with run None that show ?thesis by simp
    qed
  qed
qed

lemma refresh_general_ffmpeg:
  assumes "refreshFfmpeg s"
  shows "\<exists>pre post. trace (refresh_general s) =
            (trace s @ pre) @ [Refresh RefreshFFMpeg, Refresh RefreshStreamManager] @ post \<and>
            Refresh RefreshStreamManager \<notin> set pre"
proof -
  define s1 where "s1 = emit (Refresh RefreshConfig) s"
  define s2 where "s2 = when_flag (refreshScraperCache s1) (emit (Refresh RefreshScraperCache)) s1"
  define s3 where "s3 = when_flag (refreshPluginCache s2) (emit (Refresh RefreshPluginCache)) s2"
  define s4 where "s4 = when_flag (refreshFfmpeg s3)
                 (\<lambda>t. (emit (Refresh RefreshFFMpeg) t)\<lparr>refreshStreamManager := True\<rparr>) s3"
  define s5 where "s5 = when_flag (refreshStreamManager s4) (emit (Refresh RefreshStreamManager)) s4"
  define s6 where "s6 = when_flag (refreshBlobStorage s5) (emit (Refresh SetBlobStoreOptions)) s5"
  define s7 where "s7 = when_flag (refreshScraperSource s6) (emit (Refresh RefreshScraperSourceManager)) s6"
  define s8 where "s8 = when_flag (refreshPluginSource s7) (emit (Refresh RefreshPluginSourceManager)) s7"
  have eq: "refresh_general s = s8"
    unfolding refresh_general_def Let_def s8_def s7_def s6_def s5_def s4_def s3_def s2_def s1_def
    by (rule refl)
  define pre where "pre = [Refresh RefreshConfig] @
       (if refreshScraperCache s then [Refresh RefreshScraperCache] else []) @
       (if refreshPluginCache s then [Refresh RefreshPluginCache] else [])"
  have t3: "trace s3 = trace s @ pre" and f3: "refreshFfmpeg s3"
    using assms by (simp_all add: s3_def s2_def s1_def pre_def when_flag_def emit_def)
  have t4: "trace s4 = trace s3 @ [Refresh RefreshFFMpeg]" and m4: "refreshStreamManager s4"
    using f3 by (simp_all add: s4_def when_flag_def emit_def)
  have t5: "trace s5 = trace s4 @ [Refresh RefreshStreamManager]"
    using m4 by (simp add: s5_def when_flag_def emit_def)
  have "extends commit_event s5 s6"
    unfolding s6_def by (rule extends_when_emit) (simp_all add: commit_event_def)
  also have "extends commit_event s6 s7"
    unfolding s7_def by (rule extends_when_emit) (simp_all add: commit_event_def)
  also have "extends commit_event s7 s8"
    unfolding s8_def by (rule extends_when_emit) (simp_all add: commit_event_def)
  finally obtain post where t8: "trace s8 = trace s5 @ post"
    by (auto dest: extends_prefix)
  have "trace (refresh_general s) =
          (trace s @ pre) @ [Refresh RefreshFFMpeg, Refresh RefreshStreamManager] @ post"
    by (simp add: eq t8 t5 t4 t3)
  moreover have "Refresh RefreshStreamManager \<notin> set pre"
    by (simp add: pre_def)
  ultimately show ?thesis by blast
qed

lemma ffmpeg_sets_flag:
  assumes "ffmpeg_step e inp s = (s', None)" "FfmpegPath inp = Some p" "p \<noteq> GetFFMpegPath s"
  shows "refreshFfmpeg s'"
  using assms
  by (auto simp: ffmpeg_step_def fail_general_def record_local_def SetString_def cfg_Set_def
           split: option.splits if_splits)

lemma ffprobe_sets_flag:
  assumes "ffprobe_step e inp s = (s', None)" "FfprobePath inp = Some p" "p \<noteq> GetFFProbePath s"
  shows "refreshFfmpeg s'"
  using assms
  by (auto simp: ffprobe_step_def fail_general_def record_local_def SetString_def cfg_Set_def
           split: option.splits if_splits)

lemma run_steps_append_complete:
  assumes "run_steps (fs @ gs) s = (s', None)"
  obtains t where "run_steps fs s = (t, None)" and "run_steps gs t = (s', None)"
  using assms by (auto simp: run_steps_append split: prod.splits option.splits)

lemma transcoder_flag_after_body:
  assumes run: "run_steps (ConfigureGeneral_steps e inp) (enter c) = (s, None)"
      and changed: "(FfmpegPath inp = Some p \<and> p \<noteq> GetFFMpegPath c) \<or>
                    (FfprobePath inp = Some p \<and> p \<noteq> GetFFProbePath c)"
  shows "refreshFfmpeg s"
proof -
  let ?pre = "[stashes_step e inp, database_step e inp, backup_step e inp, generated_step e inp,
      scrapers_step e inp, plugins_step e inp, metadata_step e inp, cache_step e inp,
      blobsPath_step e inp, blobsStorage_step e inp]"
  obtain post where split:
    "ConfigureGeneral_steps e inp = ?pre @ [ffmpeg_step e inp] @ [ffprobe_step e inp] @ post"
    and post: "set post \<subseteq> set (ConfigureGeneral_steps e inp)"
    by (auto simp: steps_defs)
  from run obtain s1 where r1: "run_steps ?pre (enter c) = (s1, None)"
    and rest1: "run_steps ([ffmpeg_step e inp] @ [ffprobe_step e inp] @ post) s1 = (s, None)"
    unfolding split by (rule run_steps_append_complete)
  from rest1 obtain s2 where r2: "run_steps [ffmpeg_step e inp] s1 = (s2, None)"
    and rest2: "run_steps ([ffprobe_step e inp] @ post) s2 = (s, None)"
    by (rule run_steps_append_complete)
  from rest2 obtain s3 where r3: "run_steps [ffprobe_step e inp] s2 = (s3, None)"
    and r4: "run_steps post s3 = (s, None)"
    by (rule run_steps_append_complete)
  have "confined (touches True (- {config_FFMpegPath, config_FFProbePath})) (run_steps ?pre)"
    by (rule run_steps_confined) (auto intro!: step_fps_weak)
  then have e1: "extends (touches True (- {config_FFMpegPath, config_FFProbePath})) (enter c) s1"
    using r1 by (rule confinedD)
  have v1: "values s1 config_FFMpegPath = values c config_FFMpegPath"
           "values s1 config_FFProbePath = values c config_FFProbePath"
    using extends_touchesD(1)[OF e1, of config_FFMpegPath]
          extends_touchesD(1)[OF e1, of config_FFProbePath]
    by (simp_all add: enter_def)
  from r2 have f2: "ffmpeg_step e inp s1 = (s2, None)"
    by (simp split: prod.splits option.splits)
  from r3 have f3: "ffprobe_step e inp s2 = (s3, None)"
    by (simp split: prod.splits option.splits)
  have e2: "extends (touches False {config_FFMpegPath}) s1 s2"
    using ffmpeg_fp f2 by (rule confinedD)
  have e3: "extends (touches False {config_FFProbePath}) s2 s3"
    using ffprobe_fp f3 by (rule confinedD)
  have v2: "values s2 config_FFProbePath = values c config_FFProbePath"
    using extends_touchesD(1)[OF e2, of config_FFProbePath] v1 by simp
  have "refreshFfmpeg s3"
    using changed
  proof
    assume "FfmpegPath inp = Some p \<and> p \<noteq> GetFFMpegPath c"
    then have "refreshFfmpeg s2"
      using f2 v1 by (intro ffmpeg_sets_flag[of e inp s1 s2 p]) (simp_all add: GetFFMpegPath_def getString_def)
    with e3 show ?thesis by (rule extends_flagD)
  next
    assume "FfprobePath inp = Some p \<and> p \<noteq> GetFFProbePath c"
    then show ?thesis
      using f3 v2 by (intro ffprobe_sets_flag[of e inp s2 s3 p]) (simp_all add: GetFFProbePath_def getString_def)
  qed
  moreover have "confined (touches True UNIV) (run_steps post)"
    using post by (intro run_steps_confined steps_confined_any) auto
  then have "extends (touches True UNIV) s3 s"
    using r4 by (rule confinedD)
  ultimately show ?thesis
    by (simp add: extends_flagD)
qed

subsection \<open>A run that stops at a rejected field\<close>

lemma stopped_run:
  assumes split: "\<exists>post. ConfigureGeneral_steps e inp = pre @ f # post"
      and pre_c: "\<And>g. g \<in> set pre \<Longrightarrow> confined (touches True (- K)) g"
      and pre_x: "\<And>g. g \<in> set pre \<Longrightarrow> exits_in X g"
      and stop: "\<And>s. (\<And>k. k \<in> K \<Longrightarrow> values s k = values c k) \<Longrightarrow> f s = fail_general err s"
      and err_in: "\<And>r. Return r (Some err) \<in> X"
  shows "\<exists>s out. ConfigureGeneral e inp c = (s, out) \<and> out \<in> X \<and>
           (\<forall>k v. k \<in> K \<longrightarrow> CfgSet k v \<notin> set (trace s)) \<and>
           (\<forall>b. CfgWrite b \<notin> set (trace s)) \<and>
           (\<forall>s1. run_steps pre (enter c) = (s1, None) \<longrightarrow>
                 s = s1 \<and> out = Return (Some (makeConfigGeneralResult s1)) (Some err))"
proof -
  from split obtain post where steps: "ConfigureGeneral_steps e inp = pre @ f # post" ..
  obtain s1 y where pre: "run_steps pre (enter c) = (s1, y)"
    by (cases "run_steps pre (enter c)")
  have "confined (touches True (- K)) (run_steps pre)"
    using pre_c by (rule run_steps_confined)
  then have ext: "extends (touches True (- K)) (enter c) s1"
    using pre by (rule confinedD)
  have vals: "values s1 k = values c k" if "k \<in> K" for k
    using extends_touchesD(1)[OF ext, of k] that by (simp add: enter_def)
  have quiet: "CfgSet k v \<notin> set (trace s1)" if "k \<in> K" for k v
    using extends_touchesD(3)[OF ext, of k v] that by (auto simp: enter_def)
  have nowrite: "CfgWrite b \<notin> set (trace s1)" for b
    using extends_traceD[OF ext, of "CfgWrite b"] by (auto simp: enter_def touches_def)
  show ?thesis
  proof (cases y)
    case (Some out)
    have "exits_in X (run_steps pre)"
      using pre_x by (rule run_steps_exits)
    with pre Some have "out \<in> X"
      by (auto simp: exits_in_def)
    moreover from pre Some steps have "ConfigureGeneral e inp c = (s1, out)"
      by (simp add: ConfigureGeneral_def run_steps_append)
    ultimately show ?thesis
      using quiet nowrite pre Some by auto
  next
    case None
    have "f s1 = fail_general err s1"
      using vals by (rule stop)
    with pre None steps have "ConfigureGeneral e inp c =
        (s1, Return (Some (makeConfigGeneralResult s1)) (Some err))"
      by (simp add: ConfigureGeneral_def run_steps_append fail_general_def)
    then show ?thesis
      using quiet nowrite pre None err_in by auto
  qed
qed

lemma kept_events:
  assumes split: "\<exists>post. ConfigureGeneral_steps e inp = pre @ post"
      and run: "run_steps pre (enter c) = (s1, None)"
      and ev: "ev \<in> set (trace s1)"
  shows "ev \<in> set (trace (fst (ConfigureGeneral e inp c)))"
proof -
  from split obtain post where steps: "ConfigureGeneral_steps e inp = pre @ post" ..
  obtain s2 y where rest: "run_steps post s1 = (s2, y)"
    by (cases "run_steps post s1")
  have "confined (touches True UNIV) g" if "g \<in> set post" for g
    using that steps steps_confined_any[of g e inp] by simp
  then have "confined (touches True UNIV) (run_steps post)"
    by (rule run_steps_confined)
  then have "extends (touches True UNIV) s1 s2"
    using rest by (rule confinedD)
  then have in2: "ev \<in> set (trace s2)"
    using ev by (rule extends_trace_mono)
  have whole: "run_steps (ConfigureGeneral_steps e inp) (enter c) = (s2, y)"
    using run rest steps by (simp add: run_steps_append)
  show ?thesis
  proof (cases y)
    case (Some x)
    with whole in2 show ?thesis by (simp add: ConfigureGeneral_def)
  next
    case None
    obtain s3 out where c: "commit_general e s2 = (s3, out)"
      by (cases "commit_general e s2")
    then have "extends commit_event s2 s3"
      by (rule commit_general_extends)
    then have "ev \<in> set (trace s3)"
      using in2 by (rule extends_trace_mono)
    with whole None c show ?thesis by (simp add: ConfigureGeneral_def)
  qed
qed

lemmas plain_exs =
  stashes_ex database_ex backup_ex generated_ex scrapers_ex plugins_ex metadata_ex cache_ex
  blobsPath_ex blobsStorage_ex ffmpeg_ex ffprobe_ex galleryCoverRegex_ex
  excludes_ex imageExcludes_ex stashBoxes_ex


lemmas any_exs = password_ex logLevel_ex pure_step_exits

subsection \<open>The hashing algorithm block\<close>









subsection \<open>The pattern blocks\<close>

text \<open>The first pattern the loop rejects: every pattern before it compiles, it does not.\<close>

lemma first_invalid_first:
  assumes "first_invalid e rs = Some (r, m)"
  shows "\<exists>ok rest. rs = ok @ r # rest \<and> (\<forall>q\<in>set ok. regexp_Compile e q = None) \<and>
           regexp_Compile e r = Some m"
  using assms
proof (induction rs)
  case Nil
  then show ?case by simp
next
  case (Cons a rs)
  show ?case
  proof (cases "regexp_Compile e a")
    case (Some m')
    with Cons.prems have "r = a" "m = m'"
      by simp_all
    with Some have "a # rs = [] @ r # rs \<and> (\<forall>q\<in>set []. regexp_Compile e q = None) \<and>
                    regexp_Compile e r = Some m"
      by simp
    then show ?thesis by blast
  next
    case None
    with Cons.prems have "first_invalid e rs = Some (r, m)"
      by simp
    then obtain ok rest where "rs = ok @ r # rest" "\<forall>q\<in>set ok. regexp_Compile e q = None"
        "regexp_Compile e r = Some m"
      using Cons.IH by blast
    with None have "a # rs = (a # ok) @ r # rest \<and> (\<forall>q\<in>set (a # ok). regexp_Compile e q = None) \<and>
                    regexp_Compile e r = Some m"
      by simp
    then show ?thesis by blast
  qed
qed

lemma first_invalid_Some:
  "x \<in> set rs \<Longrightarrow> regexp_Compile e x \<noteq> None \<Longrightarrow> \<exists>r m. first_invalid e rs = Some (r, m)"
  by (induction rs) (auto split: option.splits)

lemma rejected_field:
  assumes split: "\<exists>post. ConfigureGeneral_steps e inp = pre @ f # post"
      and pre_c: "\<And>g. g \<in> set pre \<Longrightarrow> confined (touches True (- {k})) g"
      and stop: "\<And>s. f s = fail_general err s"
  shows "(\<forall>v. CfgSet k v \<notin> set (trace (fst (ConfigureGeneral e inp c)))) \<and>
         (\<forall>b. CfgWrite b \<notin> set (trace (fst (ConfigureGeneral e inp c)))) \<and>
         (\<forall>s. run_steps pre (enter c) = (s, None) \<longrightarrow>
              ConfigureGeneral e inp c = (s, Return (Some (makeConfigGeneralResult s)) (Some err))) \<and>
         (\<forall>s out. run_steps pre (enter c) = (s, Some out) \<longrightarrow> ConfigureGeneral e inp c = (s, out))"
proof -
  have "\<exists>s out. ConfigureGeneral e inp c = (s, out) \<and> out \<in> UNIV \<and>
           (\<forall>k' v. k' \<in> {k} \<longrightarrow> CfgSet k' v \<notin> set (trace s)) \<and>
           (\<forall>b. CfgWrite b \<notin> set (trace s)) \<and>
           (\<forall>s1. run_steps pre (enter c) = (s1, None) \<longrightarrow>
                 s = s1 \<and> out = Return (Some (makeConfigGeneralResult s1)) (Some err))"
  proof (rule stopped_run[where f = f])
    show "\<exists>post. ConfigureGeneral_steps e inp = pre @ f # post"
      by (rule split)
    show "confined (touches True (- {k})) g" if "g \<in> set pre" for g
      using that by (rule pre_c)
    show "exits_in UNIV g" for g :: "ConfigGeneralResult option step"
      by (simp add: exits_in_def)
    show "f s = fail_general err s" for s
      by (rule stop)
    show "Return r (Some err) \<in> UNIV" for r :: "ConfigGeneralResult option"
      by simp
  qed
  moreover have "ConfigureGeneral e inp c = (s, out)"
    if "run_steps pre (enter c) = (s, Some out)" for s out
    using that split by (auto simp: ConfigureGeneral_def run_steps_append)
  ultimately show ?thesis
    by auto
qed

lemma rejected_returns_error:
  assumes split: "\<exists>post. ConfigureGeneral_steps e inp = pre @ f # post"
      and pre_c: "\<And>g. g \<in> set pre \<Longrightarrow> confined (touches True (- {k})) g"
      and pre_x: "\<And>g. g \<in> set pre \<Longrightarrow> exits_in failures g"
      and stop: "\<And>s. f s = fail_general err s"
  shows "\<exists>s r err'. ConfigureGeneral e inp c = (s, Return r (Some err'))"
proof -
  have "\<exists>s out. ConfigureGeneral e inp c = (s, out) \<and> out \<in> failures \<and>
           (\<forall>k' v. k' \<in> {k} \<longrightarrow> CfgSet k' v \<notin> set (trace s)) \<and>
           (\<forall>b. CfgWrite b \<notin> set (trace s)) \<and>
           (\<forall>s1. run_steps pre (enter c) = (s1, None) \<longrightarrow>
                 s = s1 \<and> out = Return (Some (makeConfigGeneralResult s1)) (Some err))"
  proof (rule stopped_run[where f = f])
    show "\<exists>post. ConfigureGeneral_steps e inp = pre @ f # post"
      by (rule split)
    show "confined (touches True (- {k})) g" if "g \<in> set pre" for g
      using that by (rule pre_c)
    show "exits_in failures g" if "g \<in> set pre" for g
      using that by (rule pre_x)
    show "f s = fail_general err s" for s
      by (rule stop)
    show "Return r (Some err) \<in> failures" for r :: "ConfigGeneralResult option"
      by (simp add: failures_def)
  qed
  then show ?thesis
    by (auto simp: failures_def)
qed

text \<open>With a password sent, or no username, the username block falls through.\<close>

lemma username_safe:
  "Username inp = None \<or> Password inp \<noteq> None \<Longrightarrow> exits_in X (username_step e inp)"
  by (auto simp: username_step_def exits_in_def Let_def split: option.splits if_splits)

lemma failure_sets: "plain_failures \<subseteq> failures" "failures \<subseteq> failures"
  by (auto simp: plain_failures_def failures_def)

lemma before_galleryCoverRegex_exits:
  "g \<in> set (steps_before_galleryCoverRegex e inp) \<Longrightarrow> exits_in failures g"
  by (auto simp: steps_defs
           intro!: plain_exs[THEN exits_in_mono] algorithm_ex[THEN exits_in_mono] any_exs failure_sets)

lemma before_imageExcludes_exits:
  "g \<in> set (steps_before_imageExcludes e inp) \<Longrightarrow> Username inp = None \<or> Password inp \<noteq> None \<Longrightarrow>
   exits_in failures g"
  by (auto simp: steps_defs
           intro!: plain_exs[THEN exits_in_mono] algorithm_ex[THEN exits_in_mono] any_exs
                   username_safe failure_sets)

lemma before_excludes_exits:
  "g \<in> set (steps_before_excludes e inp) \<Longrightarrow> Username inp = None \<or> Password inp \<noteq> None \<Longrightarrow>
   exits_in failures g"
  by (rule before_imageExcludes_exits[of g e inp]) (simp_all add: steps_before_imageExcludes_def)

lemma before_galleryCoverRegex_confined:
  "g \<in> set (steps_before_galleryCoverRegex e inp) \<Longrightarrow>
   confined (touches True (- {config_GalleryCoverRegex})) g"
  by (auto simp: steps_defs intro!: step_fps_weak)

lemma before_excludes_confined:
  "g \<in> set (steps_before_excludes e inp) \<Longrightarrow> confined (touches True (- {config_Exclude})) g"
  by (auto simp: steps_defs intro!: step_fps_weak)

lemma before_imageExcludes_confined:
  "g \<in> set (steps_before_imageExcludes e inp) \<Longrightarrow>
   confined (touches True (- {config_ImageExclude})) g"
  by (auto simp: steps_defs intro!: step_fps_weak)

lemma galleryCoverRegex_rejected:
  assumes "GalleryCoverRegex inp = Some r" and "regexp_Compile e r = Some m"
  shows "(\<forall>v. CfgSet config_GalleryCoverRegex v \<notin> set (trace (fst (ConfigureGeneral e inp c)))) \<and>
         (\<forall>b. CfgWrite b \<notin> set (trace (fst (ConfigureGeneral e inp c)))) \<and>
         (\<forall>s. run_steps (steps_before_galleryCoverRegex e inp) (enter c) = (s, None) \<longrightarrow>
              ConfigureGeneral e inp c =
                (s, Return (Some (makeConfigGeneralResult s)) (Some (GalleryCoverRegexInvalid r m)))) \<and>
         (\<forall>s out. run_steps (steps_before_galleryCoverRegex e inp) (enter c) = (s, Some out) \<longrightarrow>
              ConfigureGeneral e inp c = (s, out))"
proof (rule rejected_field[where f = "galleryCoverRegex_step e inp"])
  show "\<exists>post. ConfigureGeneral_steps e inp = steps_before_galleryCoverRegex e inp @ galleryCoverRegex_step e inp # post"
    by (simp add: steps_defs)
  show "galleryCoverRegex_step e inp s = fail_general (GalleryCoverRegexInvalid r m) s" for s
    using assms by (simp add: galleryCoverRegex_step_def)
qed (rule before_galleryCoverRegex_confined)

lemma galleryCoverRegex_returns_error:
  assumes "GalleryCoverRegex inp = Some r" and "regexp_Compile e r = Some m"
  shows "\<exists>s r' err. ConfigureGeneral e inp c = (s, Return r' (Some err))"
proof (rule rejected_returns_error[where f = "galleryCoverRegex_step e inp" and k = config_GalleryCoverRegex])
  show "\<exists>post. ConfigureGeneral_steps e inp = steps_before_galleryCoverRegex e inp @ galleryCoverRegex_step e inp # post"
    by (simp add: steps_defs)
  show "galleryCoverRegex_step e inp s = fail_general (GalleryCoverRegexInvalid r m) s" for s
    using assms by (simp add: galleryCoverRegex_step_def)
  show "exits_in failures g" if "g \<in> set (steps_before_galleryCoverRegex e inp)" for g
    using that by (rule before_galleryCoverRegex_exits)
qed (rule before_galleryCoverRegex_confined)

lemma excludes_rejected:
  assumes "Excludes inp = Some rs" and "first_invalid e rs = Some (r, m)"
  shows "(\<forall>v. CfgSet config_Exclude v \<notin> set (trace (fst (ConfigureGeneral e inp c)))) \<and>
         (\<forall>b. CfgWrite b \<notin> set (trace (fst (ConfigureGeneral e inp c)))) \<and>
         (\<forall>s. run_steps (steps_before_excludes e inp) (enter c) = (s, None) \<longrightarrow>
              ConfigureGeneral e inp c =
                (s, Return (Some (makeConfigGeneralResult s)) (Some (VideoExclusionInvalid r m)))) \<and>
         (\<forall>s out. run_steps (steps_before_excludes e inp) (enter c) = (s, Some out) \<longrightarrow>
              ConfigureGeneral e inp c = (s, out))"
proof (rule rejected_field[where f = "excludes_step e inp"])
  show "\<exists>post. ConfigureGeneral_steps e inp = steps_before_excludes e inp @ excludes_step e inp # post"
    by (simp add: steps_defs)
  show "excludes_step e inp s = fail_general (VideoExclusionInvalid r m) s" for s
    using assms by (simp add: excludes_step_def)
qed (rule before_excludes_confined)

lemma excludes_returns_error:
  assumes "Excludes inp = Some rs" and "first_invalid e rs = Some (r, m)"
      and "Username inp = None \<or> Password inp \<noteq> None"
  shows "\<exists>s r' err. ConfigureGeneral e inp c = (s, Return r' (Some err))"
proof (rule rejected_returns_error[where f = "excludes_step e inp" and k = config_Exclude])
  show "\<exists>post. ConfigureGeneral_steps e inp = steps_before_excludes e inp @ excludes_step e inp # post"
    by (simp add: steps_defs)
  show "excludes_step e inp s = fail_general (VideoExclusionInvalid r m) s" for s
    using assms by (simp add: excludes_step_def)
  show "exits_in failures g" if "g \<in> set (steps_before_excludes e inp)" for g
    using that assms(3) by (rule before_excludes_exits)
qed (rule before_excludes_confined)

lemma imageExcludes_rejected:
  assumes "ImageExcludes inp = Some rs" and "first_invalid e rs = Some (r, m)"
  shows "(\<forall>v. CfgSet config_ImageExclude v \<notin> set (trace (fst (ConfigureGeneral e inp c)))) \<and>
         (\<forall>b. CfgWrite b \<notin> set (trace (fst (ConfigureGeneral e inp c)))) \<and>
         (\<forall>s. run_steps (steps_before_imageExcludes e inp) (enter c) = (s, None) \<longrightarrow>
              ConfigureGeneral e inp c =
                (s, Return (Some (makeConfigGeneralResult s)) (Some (ImageExclusionInvalid r m)))) \<and>
         (\<forall>s out. run_steps (steps_before_imageExcludes e inp) (enter c) = (s, Some out) \<longrightarrow>
              ConfigureGeneral e inp c = (s, out))"
proof (rule rejected_field[where f = "imageExcludes_step e inp"])
  show "\<exists>post. ConfigureGeneral_steps e inp = steps_before_imageExcludes e inp @ imageExcludes_step e inp # post"
    by (simp add: steps_defs)
  show "imageExcludes_step e inp s = fail_general (ImageExclusionInvalid r m) s" for s
    using assms by (simp add: imageExcludes_step_def)
qed (rule before_imageExcludes_confined)

lemma imageExcludes_returns_error:
  assumes "ImageExcludes inp = Some rs" and "first_invalid e rs = Some (r, m)"
      and "Username inp = None \<or> Password inp \<noteq> None"
  shows "\<exists>s r' err. ConfigureGeneral e inp c = (s, Return r' (Some err))"
proof (rule rejected_returns_error[where f = "imageExcludes_step e inp" and k = config_ImageExclude])
  show "\<exists>post. ConfigureGeneral_steps e inp = steps_before_imageExcludes e inp @ imageExcludes_step e inp # post"
    by (simp add: steps_defs)
  show "imageExcludes_step e inp s = fail_general (ImageExclusionInvalid r m) s" for s
    using assms by (simp add: imageExcludes_step_def)
  show "exits_in failures g" if "g \<in> set (steps_before_imageExcludes e inp)" for g
    using that assms(3) by (rule before_imageExcludes_exits)
qed (rule before_imageExcludes_confined)

lemma excludeTagPatterns_rejected:
  assumes "ExcludeTagPatterns sinp = Some rs" and "first_invalid e rs = Some (r, m)"
  shows "(\<forall>v. CfgSet config_ScraperExcludeTagPatterns v
              \<notin> set (trace (fst (ConfigureScraping e sinp c)))) \<and>
         (\<forall>b. CfgWrite b \<notin> set (trace (fst (ConfigureScraping e sinp c)))) \<and>
         (\<exists>s. ConfigureScraping e sinp c =
                (s, Return (Some (makeConfigScrapingResult s)) (Some (TagExclusionInvalid r m))))"
  using assms
  by (auto simp: scraping_defs SetString_def cfg_Set_def record_local_def split: option.splits)

subsection \<open>Library paths that pass the check\<close>

lemma check_stashes_pass:
  assumes "\<And>x. x \<in> set xs \<Longrightarrow> isNew ex x \<Longrightarrow> fst (DirExists e (Path x))"
  shows "\<exists>s'. check_stashes e ex xs s = (s', None)"
  using assms
proof (induction xs arbitrary: s)
  case Nil
  then show ?case by simp
next
  case (Cons a xs)
  have rest: "\<exists>s'. check_stashes e ex xs t = (s', None)" for t
    using Cons.prems by (intro Cons.IH) simp_all
  show ?case
  proof (cases "isNew ex a")
    case False
    with rest show ?thesis by simp
  next
    case True
    with Cons.prems have "fst (DirExists e (Path a))" by simp
    with True rest show ?thesis
      by (cases "DirExists e (Path a)") (simp add: Let_def)
  qed
qed

lemma stashes_applied:
  assumes present: "Stashes inp = Some ss"
      and ok: "\<And>x. x \<in> set ss \<Longrightarrow> Path x \<notin> Path ` set (GetStashPaths c) \<Longrightarrow>
                 fst (DirExists e (Path x))"
  shows "CfgSet config_Stash (VStashes ss) \<in> set (trace (fst (ConfigureGeneral e inp c)))"
proof -
  have paths: "GetStashPaths (enter c) = GetStashPaths c"
    by (simp add: GetStashPaths_def enter_def)
  have "\<exists>s'. check_stashes e (GetStashPaths c) ss (enter c) = (s', None)"
    using ok by (intro check_stashes_pass) (simp add: isNew_iff)
  then obtain s1 where chk: "check_stashes e (GetStashPaths c) ss (enter c) = (s1, None)" ..
  let ?s2 = "record_local config_Stash (VStashes ss) (SetInterface config_Stash (VStashes ss) s1)"
  have "stashes_step e inp (enter c) = (?s2, None)"
    using present chk paths by (simp add: stashes_step_def)
  then have run: "run_steps [stashes_step e inp] (enter c) = (?s2, None)"
    by simp
  have "CfgSet config_Stash (VStashes ss) \<in> set (trace ?s2)"
    by (simp add: record_local_def SetInterface_def cfg_Set_def)
  with kept_events[OF _ run, where ev = "CfgSet config_Stash (VStashes ss)"] show ?thesis
    by (simp add: steps_defs)
qed

section \<open>The claims\<close>

subsection \<open>Results returned alongside an error\<close>

text \<open>
  Claim C1: whenever a mutation handler returns an error it also returns a non-null
  result record; in particular \<^verbatim>\<open>ConfigureGeneral\<close> never returns a null result
  alongside an error, also for an input with an invalid \<^verbatim>\<open>StashBoxes\<close> value.

  The code does not do this. Every other failing path of \<^verbatim>\<open>ConfigureGeneral\<close> returns
  \<^verbatim>\<open>makeConfigGeneralResult()\<close> with its error; the stash-box validation at line 418
  returns \<^verbatim>\<open>nil, err\<close>. The run below is the handler at a stash box with a blank
  endpoint: the result is \<open>None\<close>, the error is the validation's.
\<close>

theorem ConfigureGeneral_invalid_stash_boxes_returns_nil:
  "snd (ConfigureGeneral example_env
          (no_update\<lparr>StashBoxes := Some [\<lparr>Endpoint = [], APIKey = ''k'', BoxName = ''box''\<rparr>]\<rparr>)
          empty_config)
   = Return None (Some (External ''endpoint cannot be blank''))"
  by (simp add: general_defs store_defs example_defs)

subsection \<open>Username without password\<close>

text \<open>
  Claim C2: \<^verbatim>\<open>ConfigureGeneral\<close> is total: for every input with the \<^verbatim>\<open>Username\<close> field
  present and the \<^verbatim>\<open>Password\<close> field absent the handler still returns a result without
  dereferencing a nil pointer.

  The code does not do this. The username block (lines 328-336) chooses its log message
  by \<^verbatim>\<open>*input.Password == ""\<close>, so a new username sent without a password makes the
  handler panic after the username is stored. The run below is such a call.
\<close>

theorem ConfigureGeneral_username_without_password_panics:
  "snd (ConfigureGeneral example_env (no_update\<lparr>Username := Some ''admin''\<rparr>) empty_config)
   = Panic"
  by (simp add: general_defs store_defs example_defs)

subsection \<open>The payload of a tolerated commit failure\<close>

text \<open>
  Claim C4: when \<^verbatim>\<open>Write\<close> fails and the store tolerates a read-only configuration file,
  the error payload holds exactly the key/value pairs applied to the store in that call,
  also those written through \<^verbatim>\<open>CustomPerformerImageLocation\<close>.

  The code does not do this. Every other field of \<^verbatim>\<open>ConfigureGeneral\<close> that is stored
  is also put into \<^verbatim>\<open>localConfig\<close>; lines 411-414 call \<^verbatim>\<open>c.SetString\<close> for
  \<^verbatim>\<open>config.CustomPerformerImageLocation\<close> and leave \<^verbatim>\<open>localConfig\<close> as it is. The run
  below sets only that field: the store holds the new value, the setter was called, and
  the payload is the empty change set.
\<close>

theorem ConfigureGeneral_payload_omits_custom_performer_image_location:
  "ConfigureGeneral readonly_env
     (no_update\<lparr>CustomPerformerImageLocation := Some ''/img''\<rparr>) tolerant_config =
   (\<lparr>values = [config_CustomPerformerImageLocation \<mapsto> VString ''/img''], overrides = {},
      AllowReadOnlyConfigFile = True,
      trace = [CfgSet config_CustomPerformerImageLocation (VString ''/img''),
               InitCustomPerformerImages ''/img'', CfgWrite False],
      localConfig = Map.empty,
      refreshScraperCache = False, refreshScraperSource = False,
      refreshPluginCache = False, refreshPluginSource = False,
      refreshStreamManager = False, refreshBlobStorage = False, refreshFfmpeg = False\<rparr>,
    Return (Some (ConfigGeneralResult [config_CustomPerformerImageLocation \<mapsto> VString ''/img'']))
      (Some (ChangeSetPayload Map.empty)))"
  by (simp add: general_defs store_defs example_defs)

subsection \<open>Refresh hooks and the commit\<close>

text \<open>
  Claim C5: no handler invokes a refresh hook unless \<^verbatim>\<open>Write\<close> has already been called
  in that invocation and has succeeded; in particular \<^verbatim>\<open>ConfigureScraping\<close> never calls
  \<^verbatim>\<open>RefreshScraperCache\<close> when \<^verbatim>\<open>Write\<close> subsequently fails.

  The code does not do this. \<^verbatim>\<open>ConfigureGeneral\<close> and \<^verbatim>\<open>ConfigureDlna\<close> refresh after
  a successful \<^verbatim>\<open>Write\<close>; \<^verbatim>\<open>ConfigureScraping\<close> (lines 660-663) refreshes the scraper
  cache first and writes afterwards. The run below changes the user agent while the
  configuration file cannot be written: the hook is called, then \<^verbatim>\<open>Write\<close> fails.
\<close>

theorem ConfigureScraping_refreshes_before_write:
  "trace (fst (ConfigureScraping readonly_env
                 (no_scraping_update\<lparr>ScraperUserAgent := Some ''agent''\<rparr>) empty_config)) =
     [CfgSet config_ScraperUserAgent (VString ''agent''), Refresh RefreshScraperCache,
      CfgWrite False]
   \<and> snd (ConfigureScraping readonly_env
            (no_scraping_update\<lparr>ScraperUserAgent := Some ''agent''\<rparr>) empty_config) =
     Return (Some (ConfigScrapingResult [config_ScraperUserAgent \<mapsto> VString ''agent'']))
       (Some (External ''open config.yml: read-only file system''))"
  by (simp add: scraping_defs store_defs example_defs)

subsection \<open>Library paths\<close>

text \<open>
  Claim C10: for every \<^verbatim>\<open>ConfigureGeneral\<close> input with a \<^verbatim>\<open>Stashes\<close> list present,
  entries whose path equals the path of an existing stash entry are accepted without
  any disk-existence check; for every entry whose path is new and does not exist on
  disk, the mutation returns early without applying the \<^verbatim>\<open>Stashes\<close> value, reporting
  the directory-check error.

  In the whole call, \<^verbatim>\<open>fsutil.DirExists\<close> is asked only about paths that no stored
  library root has. If some entry is new and missing, the handler returns the view of
  the unchanged store with the error \<^verbatim>\<open>DirExists\<close> gave for the first such entry, and
  no setter has been called. If every new entry exists, the list is stored, whether
  or not the entries with a known path still exist on disk.
\<close>

theorem new_stash_paths_must_exist:
  assumes "Stashes inp = Some ss"
  shows "(\<forall>p. FsDirExists p \<in> set (trace (fst (ConfigureGeneral e inp c))) \<longrightarrow>
              p \<notin> Path ` set (GetStashPaths c)) \<and>
         (\<forall>x. x \<in> set ss \<and> Path x \<notin> Path ` set (GetStashPaths c) \<and> \<not> fst (DirExists e (Path x)) \<longrightarrow>
            (\<exists>a s. List.find (\<lambda>x. isNew (GetStashPaths c) x \<and> \<not> fst (DirExists e (Path x))) ss = Some a \<and>
                   ConfigureGeneral e inp c =
                     (s, Return (Some (makeConfigGeneralResult c)) (snd (DirExists e (Path a)))) \<and>
                   snd (DirExists e (Path a)) \<noteq> None \<and>
                   values s = values c \<and> (\<forall>k v. CfgSet k v \<notin> set (trace s)))) \<and>
         ((\<forall>x. x \<in> set ss \<and> Path x \<notin> Path ` set (GetStashPaths c) \<longrightarrow> fst (DirExists e (Path x))) \<longrightarrow>
            CfgSet config_Stash (VStashes ss) \<in> set (trace (fst (ConfigureGeneral e inp c))))"
proof (intro conjI allI impI)
  fix p
  assume p: "FsDirExists p \<in> set (trace (fst (ConfigureGeneral e inp c)))"
  obtain s out where run: "ConfigureGeneral e inp c = (s, out)"
    by (cases "ConfigureGeneral e inp c")
  then have "extends (checks_new_only (GetStashPaths c)) (enter c) s"
    by (rule ConfigureGeneral_checks_new)
  from extends_traceD[OF this, of "FsDirExists p"] p run
  show "p \<notin> Path ` set (GetStashPaths c)"
    by (simp add: enter_def checks_new_only_def)
next
  fix x
  assume x: "x \<in> set ss \<and> Path x \<notin> Path ` set (GetStashPaths c) \<and> \<not> fst (DirExists e (Path x))"
  let ?P = "\<lambda>x. isNew (GetStashPaths c) x \<and> \<not> fst (DirExists e (Path x))"
  from x have "\<exists>y\<in>set ss. ?P y"
    by (auto simp: isNew_iff)
  then obtain a where a: "List.find ?P ss = Some a"
    by (cases "List.find ?P ss") (auto simp: find_None_iff)
  then have bad: "\<not> fst (DirExists e (Path a))"
    by (auto simp: find_Some_iff)
  have paths: "GetStashPaths (enter c) = GetStashPaths c"
    by (simp add: GetStashPaths_def enter_def)
  from check_stashes_missing[OF a, of "enter c"] obtain s where
    chk: "check_stashes e (GetStashPaths c) ss (enter c) =
            (s, Some (Return (Some (makeConfigGeneralResult s)) (snd (DirExists e (Path a)))))"
    and ext: "extends only_dir_checks (enter c) s"
    by blast
  note same = extends_only_dir_checksD[OF ext]
  have res: "makeConfigGeneralResult s = makeConfigGeneralResult c"
    using same(1) by (simp add: makeConfigGeneralResult_def enter_def)
  have "stashes_step e inp (enter c) =
          (s, Some (Return (Some (makeConfigGeneralResult c)) (snd (DirExists e (Path a)))))"
    using assms chk paths res by (simp add: stashes_step_def)
  then have "ConfigureGeneral e inp c =
          (s, Return (Some (makeConfigGeneralResult c)) (snd (DirExists e (Path a))))"
    by (subst ConfigureGeneral_def, subst steps_head) simp
  moreover have "snd (DirExists e (Path a)) \<noteq> None"
    using bad by (simp add: DirExists_def split: option.splits)
  moreover have "values s = values c" "\<forall>k v. CfgSet k v \<notin> set (trace s)"
    using same by (auto simp: enter_def)
  ultimately show "\<exists>a s. List.find ?P ss = Some a \<and>
                   ConfigureGeneral e inp c =
                     (s, Return (Some (makeConfigGeneralResult c)) (snd (DirExists e (Path a)))) \<and>
                   snd (DirExists e (Path a)) \<noteq> None \<and>
                   values s = values c \<and> (\<forall>k v. CfgSet k v \<notin> set (trace s))"
    using a by blast
next
  assume "\<forall>x. x \<in> set ss \<and> Path x \<notin> Path ` set (GetStashPaths c) \<longrightarrow> fst (DirExists e (Path x))"
  with assms show "CfgSet config_Stash (VStashes ss) \<in> set (trace (fst (ConfigureGeneral e inp c)))"
    by (intro stashes_applied) auto
qed

text \<open>
  The theorem at a list with one existing and one missing directory: the call returns
  the error of the missing one and the store is as it was.
\<close>

theorem new_stash_paths_must_exist_witness:
  "Stashes (no_update\<lparr>Stashes := Some [\<lparr>Path = ''/data'', ExcludeVideo = False, ExcludeImage = False\<rparr>,
                                         \<lparr>Path = ''/missing'', ExcludeVideo = False, ExcludeImage = False\<rparr>]\<rparr>)
     = Some [\<lparr>Path = ''/data'', ExcludeVideo = False, ExcludeImage = False\<rparr>,
             \<lparr>Path = ''/missing'', ExcludeVideo = False, ExcludeImage = False\<rparr>]
   \<and> (\<exists>s. ConfigureGeneral example_env
              (no_update\<lparr>Stashes := Some [\<lparr>Path = ''/data'', ExcludeVideo = False, ExcludeImage = False\<rparr>,
                                          \<lparr>Path = ''/missing'', ExcludeVideo = False, ExcludeImage = False\<rparr>]\<rparr>)
              empty_config
            = (s, Return (Some (makeConfigGeneralResult empty_config))
                    (Some (External ''path does not exist'')))
          \<and> values s = values empty_config \<and> (\<forall>k v. CfgSet k v \<notin> set (trace s)))"
proof -
  let ?ok = "\<lparr>Path = ''/data'', ExcludeVideo = False, ExcludeImage = False\<rparr>"
  let ?bad = "\<lparr>Path = ''/missing'', ExcludeVideo = False, ExcludeImage = False\<rparr>"
  let ?inp = "no_update\<lparr>Stashes := Some [?ok, ?bad]\<rparr>"
  have present: "Stashes ?inp = Some [?ok, ?bad]"
    by simp
  have missing: "?bad \<in> set [?ok, ?bad] \<and> Path ?bad \<notin> Path ` set (GetStashPaths empty_config) \<and>
                 \<not> fst (DirExists example_env (Path ?bad))"
    by (simp add: GetStashPaths_def empty_config_def DirExists_def example_env_def)
  have first: "List.find (\<lambda>x. isNew (GetStashPaths empty_config) x \<and>
                              \<not> fst (DirExists example_env (Path x))) [?ok, ?bad] = Some ?bad"
    by (simp add: GetStashPaths_def empty_config_def DirExists_def example_env_def)
  have err: "snd (DirExists example_env (Path ?bad)) = Some (External ''path does not exist'')"
    by (simp add: DirExists_def example_env_def)
  from new_stash_paths_must_exist[OF present, of example_env empty_config] missing
  obtain a s where "List.find (\<lambda>x. isNew (GetStashPaths empty_config) x \<and>
                              \<not> fst (DirExists example_env (Path x))) [?ok, ?bad] = Some a"
      "ConfigureGeneral example_env ?inp empty_config =
         (s, Return (Some (makeConfigGeneralResult empty_config))
               (snd (DirExists example_env (Path a))))"
      "values s = values empty_config" "\<forall>k v. CfgSet k v \<notin> set (trace s)"
    by blast
  with first err present show ?thesis
    by auto
qed

subsection \<open>Override-locked keys\<close>

text \<open>
  Claim C3, as the spec states it: for every key the store reports as overridden among
  the keys \<^verbatim>\<open>ConfigureGeneral\<close> governs (database path and the backup, generated,
  scrapers, plugins, metadata, cache and blobs directory paths), a mutation whose input
  changes that key returns the \<^verbatim>\<open>OverriddenConfig\<close> error, the setter for that key is
  never invoked, and the override check runs before any mutation of that key.

  The handler processes its fields in order and returns at the first failure, so the
  error it returns is the one of the first failing field. Below, the database path has
  an extension that is not allowed and the backup directory is overridden: the call
  returns the extension error, not \<^verbatim>\<open>OverriddenConfig\<close>.
\<close>

theorem overridden_key_other_error_counterexample:
  "config_BackupDirectoryPath \<in> overrides (empty_config\<lparr>overrides := {config_BackupDirectoryPath}\<rparr>)
   \<and> governed_path config_BackupDirectoryPath
         (no_update\<lparr>DatabasePath := Some ''stash.txt'', BackupDirectoryPath := Some ''/backup''\<rparr>)
       = Some ''/backup''
   \<and> getString (empty_config\<lparr>overrides := {config_BackupDirectoryPath}\<rparr>) config_BackupDirectoryPath
       \<noteq> ''/backup''
   \<and> snd (ConfigureGeneral example_env
            (no_update\<lparr>DatabasePath := Some ''stash.txt'', BackupDirectoryPath := Some ''/backup''\<rparr>)
            (empty_config\<lparr>overrides := {config_BackupDirectoryPath}\<rparr>))
       = Return (Some (ConfigGeneralResult Map.empty)) (Some InvalidDatabasePath)"
  by (simp add: general_defs store_defs example_defs governed_path_def filepath_Ext_def)

text \<open>
  Claim C3, amended: for every overridden key among those keys, a mutation whose input
  changes that key returns an error, never invokes the setter for that key, leaves the
  stored value as it was and never writes the store. When every block before the block
  of that key falls through, the call checks the override, does nothing else and
  returns \<^verbatim>\<open>OverriddenConfig\<close> naming the key with the view of the store. Otherwise
  one of those earlier blocks has returned: the call ends there with that block's
  result and error, and the override of the key is never checked.
\<close>

theorem overridden_key_is_never_set:
  assumes ov: "k \<in> overrides c"
      and field: "governed_path k inp = Some p"
      and changed: "getString c k \<noteq> p"
  shows "\<exists>s r err. ConfigureGeneral e inp c = (s, Return r (Some err)) \<and>
           (\<forall>v. CfgSet k v \<notin> set (trace s)) \<and> values s k = values c k \<and>
           (\<forall>b. CfgWrite b \<notin> set (trace s)) \<and>
           (CfgHasOverride k \<in> set (trace s) \<longrightarrow> err = OverriddenConfig k) \<and>
           (\<forall>t. run_steps (steps_before_path k e inp) (enter c) = (t, None) \<longrightarrow>
                s = emit (CfgHasOverride k) t \<and> r = Some (makeConfigGeneralResult s) \<and>
                err = OverriddenConfig k) \<and>
           (\<forall>t out. run_steps (steps_before_path k e inp) (enter c) = (t, Some out) \<longrightarrow>
                s = t \<and> out = Return r (Some err) \<and> CfgHasOverride k \<notin> set (trace s))"
  using field
proof (cases rule: governed_path_cases)
  case 1
  show ?thesis
    unfolding \<open>k = config_Database\<close>
    by (rule general_blocked[where f = "database_step e inp"])
       (use 1 ov changed in \<open>auto simp: steps_defs steps_before_path_def
          intro!: step_fps_weak step_exs database_blocked\<close>)
next
  case 2
  show ?thesis
    unfolding \<open>k = config_BackupDirectoryPath\<close>
    by (rule general_blocked[where f = "backup_step e inp"])
       (use 2 ov changed in \<open>auto simp: steps_defs steps_before_path_def
          intro!: step_fps_weak step_exs backup_blocked\<close>)
next
  case 3
  show ?thesis
    unfolding \<open>k = config_Generated\<close>
    by (rule general_blocked[where f = "generated_step e inp"])
       (use 3 ov changed in \<open>auto simp: steps_defs steps_before_path_def
          intro!: step_fps_weak step_exs generated_blocked\<close>)
next
  case 4
  show ?thesis
    unfolding \<open>k = config_ScrapersPath\<close>
    by (rule general_blocked[where f = "scrapers_step e inp"])
       (use 4 ov changed in \<open>auto simp: steps_defs steps_before_path_def
          intro!: step_fps_weak step_exs scrapers_blocked\<close>)
next
  case 5
  show ?thesis
    unfolding \<open>k = config_PluginsPath\<close>
    by (rule general_blocked[where f = "plugins_step e inp"])
       (use 5 ov changed in \<open>auto simp: steps_defs steps_before_path_def
          intro!: step_fps_weak step_exs plugins_blocked\<close>)
next
  case 6
  show ?thesis
    unfolding \<open>k = config_Metadata\<close>
    by (rule general_blocked[where f = "metadata_step e inp"])
       (use 6 ov changed in \<open>auto simp: steps_defs steps_before_path_def
          intro!: step_fps_weak step_exs metadata_blocked\<close>)
next
  case 7
  show ?thesis
    unfolding \<open>k = config_Cache\<close>
    by (rule general_blocked[where f = "cache_step e inp"])
       (use 7 ov changed in \<open>auto simp: steps_defs steps_before_path_def
          intro!: step_fps_weak step_exs cache_blocked\<close>)
next
  case 8
  show ?thesis
    unfolding \<open>k = config_BlobsPath\<close>
    by (rule general_blocked[where f = "blobsPath_step e inp"])
       (use 8 ov changed in \<open>auto simp: steps_defs steps_before_path_def
          intro!: step_fps_weak step_exs blobsPath_blocked\<close>)
qed

text \<open>
  The theorem at an overridden cache directory: the blocks before the cache block fall
  through, the call returns \<^verbatim>\<open>OverriddenConfig\<close> for \<^verbatim>\<open>config.Cache\<close>, and its only
  call is the override check.
\<close>

theorem overridden_key_is_never_set_witness:
  "config_Cache \<in> overrides (empty_config\<lparr>overrides := {config_Cache}\<rparr>)
   \<and> governed_path config_Cache (no_update\<lparr>CachePath := Some ''/cache''\<rparr>) = Some ''/cache''
   \<and> getString (empty_config\<lparr>overrides := {config_Cache}\<rparr>) config_Cache \<noteq> ''/cache''
   \<and> run_steps (steps_before_path config_Cache example_env (no_update\<lparr>CachePath := Some ''/cache''\<rparr>))
         (enter (empty_config\<lparr>overrides := {config_Cache}\<rparr>))
       = (enter (empty_config\<lparr>overrides := {config_Cache}\<rparr>), None)
   \<and> (\<exists>r. ConfigureGeneral example_env (no_update\<lparr>CachePath := Some ''/cache''\<rparr>)
              (empty_config\<lparr>overrides := {config_Cache}\<rparr>)
            = (emit (CfgHasOverride config_Cache) (enter (empty_config\<lparr>overrides := {config_Cache}\<rparr>)),
               Return r (Some (OverriddenConfig config_Cache))))"
proof -
  let ?c = "empty_config\<lparr>overrides := {config_Cache}\<rparr>"
  let ?inp = "no_update\<lparr>CachePath := Some ''/cache''\<rparr>"
  have ov: "config_Cache \<in> overrides ?c"
    by simp
  have field: "governed_path config_Cache ?inp = Some ''/cache''"
    by (simp add: governed_path_def)
  have changed: "getString ?c config_Cache \<noteq> ''/cache''"
    by (simp add: getString_def empty_config_def)
  have pre: "run_steps (steps_before_path config_Cache example_env ?inp) (enter ?c) = (enter ?c, None)"
    by (simp add: steps_before_path_def general_defs store_defs example_defs)
  from overridden_key_is_never_set[OF ov field changed, of example_env] pre
  have "\<exists>r. ConfigureGeneral example_env ?inp ?c
            = (emit (CfgHasOverride config_Cache) (enter ?c),
               Return r (Some (OverriddenConfig config_Cache)))"
    by blast
  with ov field changed pre show ?thesis
    by blast
qed

subsection \<open>Transcoder binaries\<close>

text \<open>
  Claim C8: for every \<^verbatim>\<open>ConfigureGeneral\<close> call in which the ffmpeg or ffprobe binary
  path changes (the field is present and differs from the stored value) and the commit
  succeeds, both \<^verbatim>\<open>RefreshFFMpeg\<close> and \<^verbatim>\<open>RefreshStreamManager\<close> are invoked, the
  transcoder refresh before the streaming-manager refresh, also when no
  streaming-related field was present in the input.

  The calls of such a run contain \<^verbatim>\<open>RefreshFFMpeg\<close> directly followed by
  \<^verbatim>\<open>RefreshStreamManager\<close>, after the successful \<^verbatim>\<open>Write\<close> and with no earlier call of
  \<^verbatim>\<open>RefreshStreamManager\<close>.
\<close>

theorem transcoder_change_refreshes_both:
  assumes changed: "(FfmpegPath inp = Some p \<and> p \<noteq> GetFFMpegPath c) \<or>
                    (FfprobePath inp = Some p \<and> p \<noteq> GetFFProbePath c)"
      and committed: "CfgWrite True \<in> set (trace (fst (ConfigureGeneral e inp c)))"
  shows "\<exists>pre post. trace (fst (ConfigureGeneral e inp c)) =
            pre @ [Refresh RefreshFFMpeg, Refresh RefreshStreamManager] @ post \<and>
            CfgWrite True \<in> set pre \<and> Refresh RefreshStreamManager \<notin> set pre"
proof -
  from committed obtain s where run: "run_steps (ConfigureGeneral_steps e inp) (enter c) = (s, None)"
    and final: "fst (ConfigureGeneral e inp c) = refresh_general (emit (CfgWrite True) s)"
    by (rule committed_run)
  have "refreshFfmpeg s"
    using run changed by (rule transcoder_flag_after_body)
  then have "refreshFfmpeg (emit (CfgWrite True) s)"
    by (simp add: emit_def)
  from refresh_general_ffmpeg[OF this] obtain pre post where
    tr: "trace (refresh_general (emit (CfgWrite True) s)) =
           (trace (emit (CfgWrite True) s) @ pre) @
           [Refresh RefreshFFMpeg, Refresh RefreshStreamManager] @ post"
    and pre: "Refresh RefreshStreamManager \<notin> set pre"
    by blast
  have "Refresh RefreshStreamManager \<notin> set (trace s)"
    using run by (rule body_no_commit_events)
  then have "CfgWrite True \<in> set (trace (emit (CfgWrite True) s) @ pre) \<and>
             Refresh RefreshStreamManager \<notin> set (trace (emit (CfgWrite True) s) @ pre)"
    using pre by (simp add: emit_def)
  with tr final show ?thesis
    by metis
qed

text \<open>The theorem at a call that changes only the ffmpeg path.\<close>

theorem transcoder_change_refreshes_both_witness:
  "FfmpegPath (no_update\<lparr>FfmpegPath := Some ''/usr/bin/ffmpeg''\<rparr>) = Some ''/usr/bin/ffmpeg''
   \<and> ''/usr/bin/ffmpeg'' \<noteq> GetFFMpegPath empty_config
   \<and> CfgWrite True \<in> set (trace (fst (ConfigureGeneral example_env
                                          (no_update\<lparr>FfmpegPath := Some ''/usr/bin/ffmpeg''\<rparr>)
                                          empty_config)))
   \<and> (\<exists>pre post. trace (fst (ConfigureGeneral example_env
                                 (no_update\<lparr>FfmpegPath := Some ''/usr/bin/ffmpeg''\<rparr>)
                                 empty_config)) =
          pre @ [Refresh RefreshFFMpeg, Refresh RefreshStreamManager] @ post \<and>
          CfgWrite True \<in> set pre \<and> Refresh RefreshStreamManager \<notin> set pre)"
proof -
  let ?inp = "no_update\<lparr>FfmpegPath := Some ''/usr/bin/ffmpeg''\<rparr>"
  have changed: "FfmpegPath ?inp = Some ''/usr/bin/ffmpeg'' \<and>
                 ''/usr/bin/ffmpeg'' \<noteq> GetFFMpegPath empty_config"
    by (simp add: GetFFMpegPath_def getString_def empty_config_def)
  have committed: "CfgWrite True \<in> set (trace (fst (ConfigureGeneral example_env ?inp empty_config)))"
    by (simp add: general_defs store_defs example_defs)
  from changed have "(FfmpegPath ?inp = Some ''/usr/bin/ffmpeg'' \<and>
                      ''/usr/bin/ffmpeg'' \<noteq> GetFFMpegPath empty_config) \<or>
                     (FfprobePath ?inp = Some ''/usr/bin/ffmpeg'' \<and>
                      ''/usr/bin/ffmpeg'' \<noteq> GetFFProbePath empty_config)"
    by blast
  from transcoder_change_refreshes_both[OF this committed] changed committed
  show ?thesis
    by blast
qed

subsection \<open>Issuing and clearing the API key\<close>

text \<open>
  Claim C9: \<^verbatim>\<open>GenerateAPIKey\<close> with the clear flag unset and an empty stored username
  stores and returns an empty API key with no error (when the commit succeeds); with
  the clear flag set it stores the empty key regardless of the username; a new
  non-empty key is generated only when the clear flag is unset and the stored username
  is non-empty, and the key is bound to that username.

  The four parts below: the empty key without a username; the empty key on clear; a
  non-empty returned key is the one \<^verbatim>\<open>manager.GenerateAPIKey\<close> made for the stored,
  non-empty username with the clear flag unset; and in that situation the key
  \<^verbatim>\<open>manager.GenerateAPIKey\<close> makes is the one stored and returned.
\<close>

theorem GenerateAPIKey_issues_or_clears:
  "(Clear inp \<noteq> Some True \<and> GetUsername c = [] \<and> Write e = None \<longrightarrow>
      snd (GenerateAPIKey e inp c) = Return [] None \<and>
      values (fst (GenerateAPIKey e inp c)) config_ApiKey = Some (VString []) \<and>
      CfgSet config_ApiKey (VString []) \<in> set (trace (fst (GenerateAPIKey e inp c))))
   \<and> (Clear inp = Some True \<longrightarrow>
      (\<exists>err. snd (GenerateAPIKey e inp c) = Return [] err) \<and>
      values (fst (GenerateAPIKey e inp c)) config_ApiKey = Some (VString []) \<and>
      CfgSet config_ApiKey (VString []) \<in> set (trace (fst (GenerateAPIKey e inp c))))
   \<and> (\<forall>k err. snd (GenerateAPIKey e inp c) = Return k err \<and> k \<noteq> [] \<longrightarrow>
      Clear inp \<noteq> Some True \<and> GetUsername c \<noteq> [] \<and>
      manager_GenerateAPIKey e (GetUsername c) = (k, None) \<and>
      values (fst (GenerateAPIKey e inp c)) config_ApiKey = Some (VString k))
   \<and> (\<forall>k. Clear inp \<noteq> Some True \<and> GetUsername c \<noteq> [] \<and>
          manager_GenerateAPIKey e (GetUsername c) = (k, None) \<longrightarrow>
      (\<exists>err. snd (GenerateAPIKey e inp c) = Return k err) \<and>
      values (fst (GenerateAPIKey e inp c)) config_ApiKey = Some (VString k))"
proof (intro conjI allI impI)
  assume "Clear inp \<noteq> Some True \<and> GetUsername c = [] \<and> Write e = None"
  then have k: "newAPIKey e inp (enter c) = Inr []" and w: "Write e = None"
    by (auto simp: newAPIKey_def enter_def GetUsername_def getString_def split: option.splits)
  show "snd (GenerateAPIKey e inp c) = Return [] None"
    using k w by (simp add: GenerateAPIKey_def Let_def)
  show "values (fst (GenerateAPIKey e inp c)) config_ApiKey = Some (VString [])"
    using k w by (simp add: apikey_defs)
  show "CfgSet config_ApiKey (VString []) \<in> set (trace (fst (GenerateAPIKey e inp c)))"
    using k w by (simp add: apikey_defs)
next
  assume "Clear inp = Some True"
  then have k: "newAPIKey e inp (enter c) = Inr []"
    by (simp add: newAPIKey_def)
  show "\<exists>err. snd (GenerateAPIKey e inp c) = Return [] err"
    using k by (simp add: GenerateAPIKey_def Let_def split: option.splits)
  show "values (fst (GenerateAPIKey e inp c)) config_ApiKey = Some (VString [])"
    using k by (simp add: GenerateAPIKey_def SetString_def cfg_Set_def record_local_def emit_def Let_def
                  split: option.splits)
  show "CfgSet config_ApiKey (VString []) \<in> set (trace (fst (GenerateAPIKey e inp c)))"
    using k by (simp add: GenerateAPIKey_def SetString_def cfg_Set_def record_local_def emit_def Let_def
                  split: option.splits)
next
  fix k err
  assume ret: "snd (GenerateAPIKey e inp c) = Return k err \<and> k \<noteq> []"
  have user: "GetUsername (enter c) = GetUsername c"
    by (simp add: enter_def GetUsername_def getString_def)
  from ret have new: "newAPIKey e inp (enter c) = Inr k"
    by (auto simp: GenerateAPIKey_def Let_def split: sum.splits option.splits if_splits)
  with ret user show "Clear inp \<noteq> Some True"
    by (auto simp: newAPIKey_def)
  from new ret user show "GetUsername c \<noteq> []"
    by (auto simp: newAPIKey_def Let_def split: if_splits)
  from new ret user show "manager_GenerateAPIKey e (GetUsername c) = (k, None)"
    by (auto simp: newAPIKey_def Let_def split: if_splits prod.splits option.splits)
  from new show "values (fst (GenerateAPIKey e inp c)) config_ApiKey = Some (VString k)"
    by (simp add: GenerateAPIKey_def SetString_def cfg_Set_def record_local_def emit_def Let_def
                  split: option.splits)
next
  fix k
  assume "Clear inp \<noteq> Some True \<and> GetUsername c \<noteq> [] \<and>
          manager_GenerateAPIKey e (GetUsername c) = (k, None)"
  moreover have "GetUsername (enter c) = GetUsername c"
    by (simp add: enter_def GetUsername_def getString_def)
  ultimately have new: "newAPIKey e inp (enter c) = Inr k"
    by (auto simp: newAPIKey_def Let_def split: option.splits)
  show "\<exists>err. snd (GenerateAPIKey e inp c) = Return k err"
    using new by (simp add: GenerateAPIKey_def Let_def split: option.splits)
  show "values (fst (GenerateAPIKey e inp c)) config_ApiKey = Some (VString k)"
    using new by (simp add: GenerateAPIKey_def SetString_def cfg_Set_def record_local_def emit_def Let_def
                  split: option.splits)
qed

text \<open>The theorem at a call with no clear flag on a store without a username.\<close>

theorem GenerateAPIKey_issues_or_clears_witness:
  "Clear \<lparr>Clear = None\<rparr> \<noteq> Some True \<and> GetUsername empty_config = [] \<and>
   Write example_env = None \<and>
   snd (GenerateAPIKey example_env \<lparr>Clear = None\<rparr> empty_config) = Return [] None \<and>
   values (fst (GenerateAPIKey example_env \<lparr>Clear = None\<rparr> empty_config)) config_ApiKey
     = Some (VString [])"
proof -
  have hyp: "Clear \<lparr>Clear = None\<rparr> \<noteq> Some True \<and> GetUsername empty_config = [] \<and>
             Write example_env = None"
    by (simp add: GetUsername_def getString_def empty_config_def example_env_def)
  with GenerateAPIKey_issues_or_clears[of "\<lparr>Clear = None\<rparr>" empty_config example_env]
  show ?thesis
    by blast
qed

subsection \<open>Hashing algorithm and the MD5 flag\<close>



subsection \<open>Malformed patterns\<close>

text \<open>
  Claim C7, as the spec states it: for every input with a string that does not compile
  as a regular expression in an exclusion-pattern field (\<^verbatim>\<open>Excludes\<close>, \<^verbatim>\<open>ImageExcludes\<close>
  of \<^verbatim>\<open>ConfigureGeneral\<close>, \<^verbatim>\<open>ExcludeTagPatterns\<close> of \<^verbatim>\<open>ConfigureScraping\<close>) or in
  \<^verbatim>\<open>GalleryCoverRegex\<close>, the mutation returns a validation error, the setter for that
  field is not invoked and \<^verbatim>\<open>Write\<close> is never called.

  The handler returns at the first failing field, and the fields before the patterns
  can fail with an error of another kind. Below, the database path is changed while it
  is overridden and the video exclusion list holds a malformed pattern: the call
  returns \<^verbatim>\<open>OverriddenConfig\<close>, which the spec's taxonomy keeps apart from a validation
  failure.
\<close>

theorem malformed_pattern_other_error_counterexample:
  "Excludes (no_update\<lparr>DatabasePath := Some ''/new/stash.db'', Excludes := Some [''('']\<rparr>)
     = Some [''(''] 
   \<and> regexp_Compile example_env ''('' = Some ''missing closing )''
   \<and> snd (ConfigureGeneral example_env
            (no_update\<lparr>DatabasePath := Some ''/new/stash.db'', Excludes := Some [''('']\<rparr>)
            (empty_config\<lparr>overrides := {config_Database}\<rparr>))
       = Return (Some (ConfigGeneralResult Map.empty)) (Some (OverriddenConfig config_Database))"
  by (simp add: general_defs store_defs example_defs)

text \<open>
  Claim C7, amended: for every input with a malformed pattern in one of those fields,
  the setter for that field is not invoked and \<^verbatim>\<open>Write\<close> is never called. When every
  block before the field falls through, the call returns the validation error naming
  the pattern; for a list that is its first malformed pattern, the one that does not
  compile while every pattern before it in the list does. Otherwise an earlier block
  has ended the call, and the call ends as that block ended it. The call returns a
  non-nil error (the validation error or the error of the earlier field, which can be
  \<^verbatim>\<open>OverriddenConfig\<close>) for every input with a malformed \<^verbatim>\<open>GalleryCoverRegex\<close>, and for
  every input with a malformed \<^verbatim>\<open>Excludes\<close> or \<^verbatim>\<open>ImageExcludes\<close> pattern that does not send
  a \<^verbatim>\<open>Username\<close> without a \<^verbatim>\<open>Password\<close>. In \<^verbatim>\<open>ConfigureScraping\<close> no block before the
  patterns can end the call, so the validation error is returned in every run.
\<close>

theorem malformed_pattern_is_not_applied:
  "(GalleryCoverRegex inp = Some x \<and> regexp_Compile e x = Some m \<longrightarrow>
      (\<forall>v. CfgSet config_GalleryCoverRegex v \<notin> set (trace (fst (ConfigureGeneral e inp c)))) \<and>
      (\<forall>b. CfgWrite b \<notin> set (trace (fst (ConfigureGeneral e inp c)))) \<and>
      (\<forall>s. run_steps (steps_before_galleryCoverRegex e inp) (enter c) = (s, None) \<longrightarrow>
           ConfigureGeneral e inp c =
             (s, Return (Some (makeConfigGeneralResult s)) (Some (GalleryCoverRegexInvalid x m)))) \<and>
      (\<forall>s out. run_steps (steps_before_galleryCoverRegex e inp) (enter c) = (s, Some out) \<longrightarrow>
           ConfigureGeneral e inp c = (s, out)) \<and>
      (\<exists>s r err. ConfigureGeneral e inp c = (s, Return r (Some err))))
   \<and> (Excludes inp = Some rs \<and> p \<in> set rs \<and> regexp_Compile e p \<noteq> None \<longrightarrow>
      (\<forall>v. CfgSet config_Exclude v \<notin> set (trace (fst (ConfigureGeneral e inp c)))) \<and>
      (\<forall>b. CfgWrite b \<notin> set (trace (fst (ConfigureGeneral e inp c)))) \<and>
      (\<exists>ok r rest m. rs = ok @ r # rest \<and> (\<forall>q\<in>set ok. regexp_Compile e q = None) \<and>
         regexp_Compile e r = Some m \<and>
         (\<forall>s. run_steps (steps_before_excludes e inp) (enter c) = (s, None) \<longrightarrow>
              ConfigureGeneral e inp c =
                (s, Return (Some (makeConfigGeneralResult s)) (Some (VideoExclusionInvalid r m))))) \<and>
      (\<forall>s out. run_steps (steps_before_excludes e inp) (enter c) = (s, Some out) \<longrightarrow>
           ConfigureGeneral e inp c = (s, out)) \<and>
      (Username inp = None \<or> Password inp \<noteq> None \<longrightarrow>
         (\<exists>s r err. ConfigureGeneral e inp c = (s, Return r (Some err)))))
   \<and> (ImageExcludes inp = Some rs \<and> p \<in> set rs \<and> regexp_Compile e p \<noteq> None \<longrightarrow>
      (\<forall>v. CfgSet config_ImageExclude v \<notin> set (trace (fst (ConfigureGeneral e inp c)))) \<and>
      (\<forall>b. CfgWrite b \<notin> set (trace (fst (ConfigureGeneral e inp c)))) \<and>
      (\<exists>ok r rest m. rs = ok @ r # rest \<and> (\<forall>q\<in>set ok. regexp_Compile e q = None) \<and>
         regexp_Compile e r = Some m \<and>
         (\<forall>s. run_steps (steps_before_imageExcludes e inp) (enter c) = (s, None) \<longrightarrow>
              ConfigureGeneral e inp c =
                (s, Return (Some (makeConfigGeneralResult s)) (Some (ImageExclusionInvalid r m))))) \<and>
      (\<forall>s out. run_steps (steps_before_imageExcludes e inp) (enter c) = (s, Some out) \<longrightarrow>
           ConfigureGeneral e inp c = (s, out)) \<and>
      (Username inp = None \<or> Password inp \<noteq> None \<longrightarrow>
         (\<exists>s r err. ConfigureGeneral e inp c = (s, Return r (Some err)))))
   \<and> (ExcludeTagPatterns sinp = Some rs \<and> p \<in> set rs \<and> regexp_Compile e p \<noteq> None \<longrightarrow>
      (\<forall>v. CfgSet config_ScraperExcludeTagPatterns v
           \<notin> set (trace (fst (ConfigureScraping e sinp c)))) \<and>
      (\<forall>b. CfgWrite b \<notin> set (trace (fst (ConfigureScraping e sinp c)))) \<and>
      (\<exists>ok r rest m s. rs = ok @ r # rest \<and> (\<forall>q\<in>set ok. regexp_Compile e q = None) \<and>
         regexp_Compile e r = Some m \<and>
         ConfigureScraping e sinp c =
           (s, Return (Some (makeConfigScrapingResult s)) (Some (TagExclusionInvalid r m)))))"
proof (intro conjI impI)
  assume a: "GalleryCoverRegex inp = Some x \<and> regexp_Compile e x = Some m"
  then have present: "GalleryCoverRegex inp = Some x" and bad: "regexp_Compile e x = Some m"
    by simp_all
  note rej = galleryCoverRegex_rejected[OF present bad, of c]
  from rej show "\<forall>v. CfgSet config_GalleryCoverRegex v \<notin> set (trace (fst (ConfigureGeneral e inp c)))"
    and "\<forall>b. CfgWrite b \<notin> set (trace (fst (ConfigureGeneral e inp c)))"
    and "\<forall>s. run_steps (steps_before_galleryCoverRegex e inp) (enter c) = (s, None) \<longrightarrow>
           ConfigureGeneral e inp c =
             (s, Return (Some (makeConfigGeneralResult s)) (Some (GalleryCoverRegexInvalid x m)))"
    and "\<forall>s out. run_steps (steps_before_galleryCoverRegex e inp) (enter c) = (s, Some out) \<longrightarrow>
           ConfigureGeneral e inp c = (s, out)"
    by simp_all
  show "\<exists>s r err. ConfigureGeneral e inp c = (s, Return r (Some err))"
    using galleryCoverRegex_returns_error[OF present bad, of c] by blast
next
  assume a: "Excludes inp = Some rs \<and> p \<in> set rs \<and> regexp_Compile e p \<noteq> None"
  then obtain r m where bad: "first_invalid e rs = Some (r, m)"
    using first_invalid_Some[of p rs e] by blast
  from first_invalid_first[OF bad] obtain ok rest where
    first: "rs = ok @ r # rest" "\<forall>q\<in>set ok. regexp_Compile e q = None" "regexp_Compile e r = Some m"
    by blast
  from a have present: "Excludes inp = Some rs"
    by simp
  note rej = excludes_rejected[OF present bad, of c]
  from rej show "\<forall>v. CfgSet config_Exclude v \<notin> set (trace (fst (ConfigureGeneral e inp c)))"
    and "\<forall>b. CfgWrite b \<notin> set (trace (fst (ConfigureGeneral e inp c)))"
    and "\<forall>s out. run_steps (steps_before_excludes e inp) (enter c) = (s, Some out) \<longrightarrow>
           ConfigureGeneral e inp c = (s, out)"
    by simp_all
  from rej first show "\<exists>ok r rest m. rs = ok @ r # rest \<and> (\<forall>q\<in>set ok. regexp_Compile e q = None) \<and>
         regexp_Compile e r = Some m \<and>
         (\<forall>s. run_steps (steps_before_excludes e inp) (enter c) = (s, None) \<longrightarrow>
              ConfigureGeneral e inp c =
                (s, Return (Some (makeConfigGeneralResult s)) (Some (VideoExclusionInvalid r m))))"
    by blast
  show "\<exists>s r err. ConfigureGeneral e inp c = (s, Return r (Some err))"
    if "Username inp = None \<or> Password inp \<noteq> None"
    using excludes_returns_error[OF present bad that, of c] by blast
next
  assume a: "ImageExcludes inp = Some rs \<and> p \<in> set rs \<and> regexp_Compile e p \<noteq> None"
  then obtain r m where bad: "first_invalid e rs = Some (r, m)"
    using first_invalid_Some[of p rs e] by blast
  from first_invalid_first[OF bad] obtain ok rest where
    first: "rs = ok @ r # rest" "\<forall>q\<in>set ok. regexp_Compile e q = None" "regexp_Compile e r = Some m"
    by blast
  from a have present: "ImageExcludes inp = Some rs"
    by simp
  note rej = imageExcludes_rejected[OF present bad, of c]
  from rej show "\<forall>v. CfgSet config_ImageExclude v \<notin> set (trace (fst (ConfigureGeneral e inp c)))"
    and "\<forall>b. CfgWrite b \<notin> set (trace (fst (ConfigureGeneral e inp c)))"
    and "\<forall>s out. run_steps (steps_before_imageExcludes e inp) (enter c) = (s, Some out) \<longrightarrow>
           ConfigureGeneral e inp c = (s, out)"
    by simp_all
  from rej first show "\<exists>ok r rest m. rs = ok @ r # rest \<and> (\<forall>q\<in>set ok. regexp_Compile e q = None) \<and>
         regexp_Compile e r = Some m \<and>
         (\<forall>s. run_steps (steps_before_imageExcludes e inp) (enter c) = (s, None) \<longrightarrow>
              ConfigureGeneral e inp c =
                (s, Return (Some (makeConfigGeneralResult s)) (Some (ImageExclusionInvalid r m))))"
    by blast
  show "\<exists>s r err. ConfigureGeneral e inp c = (s, Return r (Some err))"
    if "Username inp = None \<or> Password inp \<noteq> None"
    using imageExcludes_returns_error[OF present bad that, of c] by blast
next
  assume a: "ExcludeTagPatterns sinp = Some rs \<and> p \<in> set rs \<and> regexp_Compile e p \<noteq> None"
  then obtain r m where bad: "first_invalid e rs = Some (r, m)"
    using first_invalid_Some[of p rs e] by blast
  from first_invalid_first[OF bad] obtain ok rest where
    first: "rs = ok @ r # rest" "\<forall>q\<in>set ok. regexp_Compile e q = None" "regexp_Compile e r = Some m"
    by blast
  from a have present: "ExcludeTagPatterns sinp = Some rs"
    by simp
  note rej = excludeTagPatterns_rejected[OF present bad, of c]
  from rej show "\<forall>v. CfgSet config_ScraperExcludeTagPatterns v
           \<notin> set (trace (fst (ConfigureScraping e sinp c)))"
    and "\<forall>b. CfgWrite b \<notin> set (trace (fst (ConfigureScraping e sinp c)))"
    by simp_all
  from rej first show "\<exists>ok r rest m s. rs = ok @ r # rest \<and> (\<forall>q\<in>set ok. regexp_Compile e q = None) \<and>
         regexp_Compile e r = Some m \<and>
         ConfigureScraping e sinp c =
           (s, Return (Some (makeConfigScrapingResult s)) (Some (TagExclusionInvalid r m)))"
    by blast
qed

text \<open>
  The theorem at a video exclusion list whose second pattern is malformed: the blocks
  before the list fall through, the call returns the validation error for that
  pattern, and it makes no call at all.
\<close>

theorem malformed_pattern_is_not_applied_witness:
  "Excludes (no_update\<lparr>Excludes := Some [''sample'', ''('']\<rparr>) = Some [''sample'', ''('']
   \<and> ''('' \<in> set [''sample'', ''('']
   \<and> regexp_Compile example_env ''('' \<noteq> None
   \<and> run_steps (steps_before_excludes example_env (no_update\<lparr>Excludes := Some [''sample'', ''('']\<rparr>))
         (enter empty_config) = (enter empty_config, None)
   \<and> ConfigureGeneral example_env (no_update\<lparr>Excludes := Some [''sample'', ''('']\<rparr>) empty_config
       = (enter empty_config,
          Return (Some (makeConfigGeneralResult (enter empty_config)))
            (Some (VideoExclusionInvalid ''('' ''missing closing )'')))"
proof -
  let ?inp = "no_update\<lparr>Excludes := Some [''sample'', ''('']\<rparr>"
  have hyp: "Excludes ?inp = Some [''sample'', ''(''] \<and> ''('' \<in> set [''sample'', ''(''] \<and>
             regexp_Compile example_env ''('' \<noteq> None"
    by (simp add: example_env_def)
  have compiles: "regexp_Compile example_env ''sample'' = None"
    and message: "regexp_Compile example_env ''('' = Some ''missing closing )''"
    by (simp_all add: example_env_def)
  have pre: "run_steps (steps_before_excludes example_env ?inp) (enter empty_config)
               = (enter empty_config, None)"
    by (simp add: general_defs store_defs example_defs)
  note field = malformed_pattern_is_not_applied[where inp = ?inp and e = example_env
      and c = empty_config and rs = "[''sample'', ''('']" and p = "''(''",
      THEN conjunct2, THEN conjunct1, THEN mp, OF hyp]
  from field[THEN conjunct2, THEN conjunct2, THEN conjunct1]
  obtain ok r rest m where first: "[''sample'', ''(''] = ok @ r # rest"
      "regexp_Compile example_env r = Some m"
    and run: "\<forall>s. run_steps (steps_before_excludes example_env ?inp) (enter empty_config) = (s, None) \<longrightarrow>
                ConfigureGeneral example_env ?inp empty_config =
                  (s, Return (Some (makeConfigGeneralResult s)) (Some (VideoExclusionInvalid r m)))"
    by blast
  from first(1) have "r \<in> set [''sample'', ''('']"
    by (metis in_set_conv_decomp)
  with first(2) compiles message have "r = ''(''" "m = ''missing closing )''"
    by auto
  with run pre hyp show ?thesis
    by simp
qed

end
